theory Spec2Isabelle
  imports Main "HOL-Library.Word" "HOL-Library.Multiset"
begin

section \<open>The port allocator of manager/allocator/network/port/port.go\<close>

subsection \<open>Data model\<close>

text \<open>
  Modelled from the spec: the enumerations and messages of the \<open>api\<close> package
  (\<open>PortConfig\<close>, \<open>EndpointSpec\<close>, \<open>Endpoint\<close>) are imported by port.go and are not
  part of the source at hand. The spec lists the protocols tcp, udp and sctp, the two publish
  modes ingress and host, and the five fields of a port descriptor; of an endpoint and an
  endpoint spec only the fields that port.go reads are kept. The port numbers are
  \<open>uint32\<close> in port.go (they are compared with its \<open>uint32\<close> constants).
\<close>

datatype PortConfig_Protocol = ProtocolTCP | ProtocolUDP | ProtocolSCTP

datatype PortConfig_PublishMode = PublishModeIngress | PublishModeHost

record PortConfig =
  Name :: string
  Protocol :: PortConfig_Protocol
  TargetPort :: "32 word"
  PublishedPort :: "32 word"
  PublishMode :: PortConfig_PublishMode

text \<open>
  A slice \<open>[]*api.PortConfig\<close> is a list of descriptors. Its elements are taken to be
  non-nil, as port.go does when it reads their fields without a test. A nil slice and an
  empty one read alike (\<open>len\<close>, \<open>range\<close>), so both are the empty list.
\<close>

record EndpointSpec =
  EndpointSpec_Ports :: "PortConfig list"

record Endpoint =
  Endpoint_Spec :: "EndpointSpec option"
  Endpoint_Ports :: "PortConfig list"

text \<open>The struct \<open>port\<close>: the key of a reservation.\<close>

record port =
  protocol :: PortConfig_Protocol
  port :: "32 word"

definition DynamicPortStart :: "32 word" where
  "DynamicPortStart = 30000"

definition DynamicPortEnd :: "32 word" where
  "DynamicPortEnd = 32767"

definition masterPortStart :: "32 word" where
  "masterPortStart = 1"

definition masterPortEnd :: "32 word" where
  "masterPortEnd = 65535"

text \<open>
  The struct \<open>allocator\<close>: \<open>map[port]struct{}\<close> is a map used as a set, so its model
  is the set of its keys. A nil map reads as the empty set.
\<close>

record allocator =
  allocator_ports :: "port set"

text \<open>
  The struct \<open>proposal\<close>. Its field \<open>pa\<close> points to the allocator; the model passes
  the allocator's state to \<open>Commit\<close> instead. The slice \<open>ports\<close> is tested against nil by
  \<open>Ports\<close>, so it is an option here.
\<close>

record proposal =
  proposal_ports :: "PortConfig list option"
  allocate :: "port set"
  deallocate :: "port set"

text \<open>
  The error values that \<open>Allocate\<close> returns, built by the \<open>errors\<close> package. The
  formatted message is kept as the data it is formatted from.
\<close>

datatype invalid_spec =
    PublishedPortOutOfRange "32 word"
  | TargetPortOutOfRange "32 word"
  | PublishedPortAssignedTwice port

datatype error =
    ErrInvalidSpec invalid_spec
  | ErrResourceInUse port
  | ErrResourceExhausted PortConfig_Protocol

text \<open>A run-time panic of the Go program: the dereference of a nil pointer.\<close>

datatype panic = NilPointerDereference

subsection \<open>Proposal: Ports, IsNoop, Commit\<close>

definition Ports :: "proposal \<Rightarrow> PortConfig list" where
  "Ports prop = (case proposal_ports prop of None \<Rightarrow> [] | Some ps \<Rightarrow> ps)"

text \<open>
  \<open>IsNoop\<close> compares the lengths of the two maps and then looks every key of
  \<open>allocate\<close> up in \<open>deallocate\<close>, answering false at the first key that is missing:
  the loop computes set inclusion, in whatever order the keys are visited.
\<close>

definition IsNoop :: "proposal \<Rightarrow> bool" where
  "IsNoop prop =
     (if card (allocate prop) \<noteq> card (deallocate prop) then False
      else allocate prop \<subseteq> deallocate prop)"

text \<open>
  \<open>Commit\<close> deletes every key of \<open>deallocate\<close> from the allocator's map and then
  inserts every key of \<open>allocate\<close>; neither loop depends on the order of its keys.
\<close>

definition Commit :: "proposal \<Rightarrow> allocator \<Rightarrow> allocator" where
  "Commit prop pa =
     (if IsNoop prop then pa
      else pa\<lparr>allocator_ports := (allocator_ports pa - deallocate prop) \<union> allocate prop\<rparr>)"

subsection \<open>Equality helpers\<close>

text \<open>
  \<open>PortsMostlyEqual\<close> takes two pointers. Two equal pointers are both nil or point to the
  same descriptor, whose fields then agree, so the comparison of pointers adds the case of
  two nil arguments to the comparison of fields.
\<close>

definition PortsMostlyEqual :: "PortConfig option \<Rightarrow> PortConfig option \<Rightarrow> bool" where
  "PortsMostlyEqual some other =
     (case (some, other) of
        (None, None) \<Rightarrow> True
      | (Some a, Some b) \<Rightarrow>
          Name a = Name b \<and> TargetPort a = TargetPort b \<and>
          Protocol a = Protocol b \<and> PublishMode a = PublishMode b
      | _ \<Rightarrow> False)"

text \<open>\<open>portsEqual\<close> is only called on the elements of port lists.\<close>

definition portsEqual :: "PortConfig \<Rightarrow> PortConfig \<Rightarrow> bool" where
  "portsEqual some other =
     (PortsMostlyEqual (Some some) (Some other) \<and> PublishedPort some = PublishedPort other)"

subsection \<open>Deallocate\<close>

definition portKey :: "PortConfig \<Rightarrow> port" where
  "portKey p = \<lparr>protocol = Protocol p, port = PublishedPort p\<rparr>"

text \<open>The loop over \<open>endpoint.Ports\<close> that fills the map \<open>deallocate\<close>.\<close>

fun deallocatePorts :: "PortConfig list \<Rightarrow> port set \<Rightarrow> port set" where
  "deallocatePorts [] D = D"
| "deallocatePorts (p # ps) D =
     (if PublishMode p = PublishModeHost then deallocatePorts ps D
      else deallocatePorts ps (insert (portKey p) D))"

text \<open>
  \<open>Deallocate\<close> and \<open>Allocate\<close> read the fields of their endpoint without a test, so
  the endpoint is a record. \<open>Deallocate\<close> leaves \<open>ports\<close> and \<open>allocate\<close> unset.
\<close>

definition Deallocate :: "Endpoint \<Rightarrow> proposal" where
  "Deallocate endpoint =
     \<lparr>proposal_ports = None, allocate = {},
      deallocate = deallocatePorts (Endpoint_Ports endpoint) {}\<rparr>"

subsection \<open>Allocate\<close>

text \<open>
  The innermost loop of the first pass: every realized port that is mostly equal to the
  spec's port overwrites the published port of the result, so the last one stays.
\<close>

fun takeAssigned :: "PortConfig \<Rightarrow> PortConfig list \<Rightarrow> PortConfig \<Rightarrow> PortConfig" where
  "takeAssigned spec [] final = final"
| "takeAssigned spec (p # ps) final =
     takeAssigned spec ps
       (if PortsMostlyEqual (Some spec) (Some p)
        then final\<lparr>PublishedPort := PublishedPort p\<rparr> else final)"

text \<open>The loop over the ports of the old spec.\<close>

fun recoverFromOld ::
  "PortConfig \<Rightarrow> PortConfig list \<Rightarrow> PortConfig list \<Rightarrow> PortConfig \<Rightarrow> PortConfig" where
  "recoverFromOld spec [] realized final = final"
| "recoverFromOld spec (old # olds) realized final =
     recoverFromOld spec olds realized
       (if portsEqual old spec then takeAssigned spec realized final else final)"

text \<open>
  The first loop of \<open>Allocate\<close>, over the ports of the spec: the range checks, the copy,
  and the recovery of a dynamically assigned port. It returns at the first port out of range.
\<close>

fun recoverPorts :: "Endpoint \<Rightarrow> PortConfig list \<Rightarrow> error + PortConfig list" where
  "recoverPorts endpoint [] = Inr []"
| "recoverPorts endpoint (spec # specs) =
     (if PublishedPort spec > masterPortEnd
      then Inl (ErrInvalidSpec (PublishedPortOutOfRange (PublishedPort spec)))
      else if TargetPort spec > masterPortEnd
      then Inl (ErrInvalidSpec (TargetPortOutOfRange (TargetPort spec)))
      else
        (let final =
           (if PublishMode spec = PublishModeHost then spec
            else if PublishedPort spec \<noteq> 0 then spec
            else (case Endpoint_Spec endpoint of
                    None \<Rightarrow> spec
                  | Some old \<Rightarrow>
                      recoverFromOld spec (EndpointSpec_Ports old) (Endpoint_Ports endpoint) spec))
         in (case recoverPorts endpoint specs of
               Inl e \<Rightarrow> Inl e
             | Inr finals \<Rightarrow> Inr (final # finals))))"

text \<open>
  The first allocation loop, over the ports that have a published port: \<open>used\<close> is the
  allocator's map, \<open>D\<close> the proposal's map \<open>deallocate\<close>, \<open>A\<close> its map \<open>allocate\<close>.
\<close>

fun allocateFixed ::
  "port set \<Rightarrow> port set \<Rightarrow> port set \<Rightarrow> PortConfig list \<Rightarrow> error + port set" where
  "allocateFixed used D A [] = Inr A"
| "allocateFixed used D A (p # ps) =
     (if PublishedPort p = 0 \<or> PublishMode p = PublishModeHost
      then allocateFixed used D A ps
      else if portKey p \<in> used \<and> portKey p \<notin> D
      then Inl (ErrResourceInUse (portKey p))
      else if portKey p \<in> A
      then Inl (ErrInvalidSpec (PublishedPortAssignedTwice (portKey p)))
      else allocateFixed used D (insert (portKey p) A) ps)"

text \<open>
  The keys that this loop looks at: those of the ports that its first test does not skip, in
  the order of the list.
\<close>

definition fixedKeys :: "PortConfig list \<Rightarrow> port list" where
  "fixedKeys ps =
     map portKey (filter (\<lambda>p. \<not> (PublishedPort p = 0 \<or> PublishMode p = PublishModeHost)) ps)"

text \<open>
  The scan \<open>for i := DynamicPortStart; i <= DynamicPortEnd; i++\<close> from the port \<open>i\<close> on:
  the first port of the range that is neither in the allocator's map nor in \<open>allocate\<close>.
\<close>

function scanDynamicRange ::
  "port set \<Rightarrow> port set \<Rightarrow> PortConfig_Protocol \<Rightarrow> 32 word \<Rightarrow> 32 word option" where
  "scanDynamicRange used A pr i =
     (if i \<le> DynamicPortEnd
      then (if \<lparr>protocol = pr, port = i\<rparr> \<notin> used
            then (if \<lparr>protocol = pr, port = i\<rparr> \<notin> A then Some i
                  else scanDynamicRange used A pr (i + 1))
            else scanDynamicRange used A pr (i + 1))
      else None)"
  by pat_completeness auto
termination
proof (relation "measure (\<lambda>(used, A, pr, i). 32768 - unat i)")
  show "wf (measure (\<lambda>(used :: port set, A :: port set, pr :: PortConfig_Protocol,
    i :: 32 word). 32768 - unat i))"
    by simp
next
  fix used A :: "port set" and pr :: PortConfig_Protocol and i :: "32 word"
  assume a: "i \<le> DynamicPortEnd"
  then have le: "unat i \<le> 32767"
    by (simp add: word_le_nat_alt DynamicPortEnd_def)
  from le have "(unat i + 1) mod 2 ^ 32 = unat i + 1"
    by simp
  then have "unat (i + 1) = Suc (unat i)"
    by (simp add: unat_word_ariths)
  with le show "((used, A, pr, i + 1), (used, A, pr, i))
      \<in> measure (\<lambda>(used, A, pr, i). 32768 - unat i)"
    by simp
  with le show "((used, A, pr, i + 1), (used, A, pr, i))
      \<in> measure (\<lambda>(used, A, pr, i). 32768 - unat i)"
    by simp
qed

declare scanDynamicRange.simps [simp del]

text \<open>
  The fallback loop \<open>for deallocated := range prop.deallocate\<close>. Go leaves the order in
  which \<open>range\<close> visits the keys of a map open, and it may differ from one loop to the
  next: \<open>keys\<close> is the order of this loop, and the loop takes the first key of the
  protocol, inside the dynamic range, that \<open>allocate\<close> does not hold.
\<close>

definition reuseDeallocated ::
  "port list \<Rightarrow> port set \<Rightarrow> PortConfig_Protocol \<Rightarrow> port option" where
  "reuseDeallocated keys A pr =
     find (\<lambda>deallocated.
        protocol deallocated = pr \<and> DynamicPortStart \<le> port deallocated \<and>
        port deallocated \<le> DynamicPortEnd \<and> deallocated \<notin> A) keys"

text \<open>
  The second allocation loop, labelled \<open>ports\<close>, over the ports that still lack a published
  port. \<open>rangeOrder k D\<close> is the order in which the fallback loop of the \<open>k\<close>-th port
  visits the keys of the map \<open>D\<close>. The loop writes the chosen port into the element of
  \<open>finalPorts\<close>, so the model returns the list as the loop leaves it, with \<open>allocate\<close>.
\<close>

fun allocateDynamic ::
  "(nat \<Rightarrow> port set \<Rightarrow> port list) \<Rightarrow> port set \<Rightarrow> port set \<Rightarrow> port set \<Rightarrow> nat \<Rightarrow>
   PortConfig list \<Rightarrow> error + PortConfig list \<times> port set" where
  "allocateDynamic rangeOrder used D A k [] = Inr ([], A)"
| "allocateDynamic rangeOrder used D A k (p # ps) =
     (if PublishedPort p \<noteq> 0 \<or> PublishMode p = PublishModeHost
      then (case allocateDynamic rangeOrder used D A (Suc k) ps of
              Inl e \<Rightarrow> Inl e
            | Inr (ps', A') \<Rightarrow> Inr (p # ps', A'))
      else (case scanDynamicRange used A (Protocol p) DynamicPortStart of
              Some i \<Rightarrow>
                (case allocateDynamic rangeOrder used D
                        (insert \<lparr>protocol = Protocol p, port = i\<rparr> A) (Suc k) ps of
                   Inl e \<Rightarrow> Inl e
                 | Inr (ps', A') \<Rightarrow> Inr (p\<lparr>PublishedPort := i\<rparr> # ps', A'))
            | None \<Rightarrow>
                (case reuseDeallocated (rangeOrder k D) A (Protocol p) of
                   Some deallocated \<Rightarrow>
                     (case allocateDynamic rangeOrder used D
                             (insert \<lparr>protocol = Protocol p, port = port deallocated\<rparr> A)
                             (Suc k) ps of
                        Inl e \<Rightarrow> Inl e
                      | Inr (ps', A') \<Rightarrow>
                          Inr (p\<lparr>PublishedPort := port deallocated\<rparr> # ps', A'))
                 | None \<Rightarrow> Inl (ErrResourceExhausted (Protocol p)))))"

text \<open>
  \<open>Allocate\<close>, on the allocator's state \<open>pa\<close>: it returns the proposal or the error
  together with the state as the call leaves it. The function reads \<open>pa.ports\<close> in its
  two allocation loops and assigns to no field of \<open>pa\<close>; what it writes are the maps and
  the list of the proposal it builds. A nil spec is replaced by an empty one.
\<close>

definition portsOfSpec :: "EndpointSpec option \<Rightarrow> PortConfig list" where
  "portsOfSpec spec = (case spec of None \<Rightarrow> [] | Some s \<Rightarrow> EndpointSpec_Ports s)"

definition Allocate ::
  "(nat \<Rightarrow> port set \<Rightarrow> port list) \<Rightarrow> allocator \<Rightarrow> Endpoint \<Rightarrow> EndpointSpec option \<Rightarrow>
   (error + proposal) \<times> allocator" where
  "Allocate rangeOrder pa endpoint spec =
     (case recoverPorts endpoint (portsOfSpec spec) of
        Inl e \<Rightarrow> (Inl e, pa)
      | Inr finalPorts \<Rightarrow>
          (let D = deallocatePorts (Endpoint_Ports endpoint) {} in
             (case allocateFixed (allocator_ports pa) D {} finalPorts of
                Inl e \<Rightarrow> (Inl e, pa)
              | Inr A \<Rightarrow>
                  (case allocateDynamic rangeOrder (allocator_ports pa) D A 0 finalPorts of
                     Inl e \<Rightarrow> (Inl e, pa)
                   | Inr (ports, A') \<Rightarrow>
                       (Inr \<lparr>proposal_ports = Some ports, allocate = A', deallocate = D\<rparr>,
                        pa)))))"

subsection \<open>AlreadyAllocated\<close>

text \<open>The inner loop of \<open>portsLoop\<close>: is some port of the spec equal to \<open>port\<close>?\<close>

fun matchesSome :: "PortConfig \<Rightarrow> PortConfig list \<Rightarrow> bool" where
  "matchesSome p [] = False"
| "matchesSome p (specPort # specPorts) =
     (if portsEqual p specPort then True else matchesSome p specPorts)"

fun portsLoop :: "PortConfig list \<Rightarrow> PortConfig list \<Rightarrow> bool" where
  "portsLoop [] specPorts = True"
| "portsLoop (p # ps) specPorts =
     (if matchesSome p specPorts then portsLoop ps specPorts else False)"

text \<open>
  \<open>AlreadyAllocated\<close> takes two pointers and tests them against nil. After its four tests
  it reads \<open>endpoint.Spec.Ports\<close> and \<open>spec.Ports\<close>: where \<open>endpoint.Spec\<close> or
  \<open>spec\<close> is nil there, the program panics.
\<close>

definition AlreadyAllocated :: "Endpoint option \<Rightarrow> EndpointSpec option \<Rightarrow> panic + bool" where
  "AlreadyAllocated endpoint spec =
     (if endpoint = None \<and> spec = None then Inr True
      else if endpoint = None \<and> spec \<noteq> None then Inr False
      else (case endpoint of
              None \<Rightarrow> Inl NilPointerDereference
            | Some e \<Rightarrow>
                if Endpoint_Spec e = None \<and> spec \<noteq> None then Inr False
                else if spec = None \<and>
                        (case Endpoint_Spec e of
                           None \<Rightarrow> False
                         | Some old \<Rightarrow> length (EndpointSpec_Ports old) > 0)
                then Inr False
                else (case Endpoint_Spec e of
                        None \<Rightarrow> Inl NilPointerDereference
                      | Some old \<Rightarrow>
                          (case spec of
                             None \<Rightarrow> Inl NilPointerDereference
                           | Some s \<Rightarrow>
                               if length (EndpointSpec_Ports old) \<noteq> length (EndpointSpec_Ports s)
                               then Inr False
                               else Inr (portsLoop (EndpointSpec_Ports old)
                                           (EndpointSpec_Ports s))))))"

subsection \<open>Example data\<close>

text \<open>
  Concrete descriptors, keys, endpoints and specs on which the functions above are
  evaluated: a service port \<open>web\<close> (tcp, target port 80) that asks for a dynamic port, the
  same port with a published port, and a second port \<open>dns\<close> (tcp, target port 53).
\<close>

definition webDynamic :: PortConfig where
  "webDynamic = \<lparr>Name = ''web'', Protocol = ProtocolTCP, TargetPort = 80, PublishedPort = 0,
     PublishMode = PublishModeIngress\<rparr>"

definition webFixed :: "32 word \<Rightarrow> PortConfig" where
  "webFixed n = webDynamic\<lparr>PublishedPort := n\<rparr>"

definition dnsFixed :: "32 word \<Rightarrow> PortConfig" where
  "dnsFixed n = \<lparr>Name = ''dns'', Protocol = ProtocolTCP, TargetPort = 53, PublishedPort = n,
     PublishMode = PublishModeIngress\<rparr>"

definition tcpKey :: "32 word \<Rightarrow> port" where
  "tcpKey n = \<lparr>protocol = ProtocolTCP, port = n\<rparr>"

definition newEndpoint :: Endpoint where
  "newEndpoint = \<lparr>Endpoint_Spec = None, Endpoint_Ports = []\<rparr>"

definition specOf :: "PortConfig list \<Rightarrow> EndpointSpec option" where
  "specOf ps = Some \<lparr>EndpointSpec_Ports = ps\<rparr>"

text \<open>The order of the keys of an empty map.\<close>

definition noKeys :: "nat \<Rightarrow> port set \<Rightarrow> port list" where
  "noKeys k D = []"

text \<open>Every tcp key of the dynamic range.\<close>

definition tcpDynamicRange :: "port set" where
  "tcpDynamicRange =
     {k. protocol k = ProtocolTCP \<and> DynamicPortStart \<le> port k \<and> port k \<le> DynamicPortEnd}"

text \<open>A map whose keys every loop visits in the order \<open>keys\<close>.\<close>

definition visitOrder :: "port list \<Rightarrow> nat \<Rightarrow> port set \<Rightarrow> port list" where
  "visitOrder keys k D = keys"

section \<open>Properties\<close>

lemmas example_defs =
  webDynamic_def webFixed_def dnsFixed_def tcpKey_def newEndpoint_def specOf_def noKeys_def

lemmas constant_defs =
  DynamicPortStart_def DynamicPortEnd_def masterPortEnd_def

lemmas scan_first_ports =
  scanDynamicRange.simps [of _ _ _ 30000] scanDynamicRange.simps [of _ _ _ 30001]

subsection \<open>Sets of keys are finite\<close>

lemma finite_protocols: "finite (UNIV :: PortConfig_Protocol set)"
proof -
  have "(UNIV :: PortConfig_Protocol set) = {ProtocolTCP, ProtocolUDP, ProtocolSCTP}"
    by (auto intro: PortConfig_Protocol.exhaust)
  then show ?thesis
    by (metis finite.emptyI finite.insertI)
qed

lemma finite_port_set: "finite (S :: port set)"
proof -
  have "(UNIV :: port set) \<subseteq> (\<lambda>(a, b). \<lparr>protocol = a, port = b\<rparr>) ` UNIV"
  proof
    fix k :: port
    have "k = (\<lambda>(a, b). \<lparr>protocol = a, port = b\<rparr>) (protocol k, port k)"
      by simp
    then show "k \<in> (\<lambda>(a, b). \<lparr>protocol = a, port = b\<rparr>) ` UNIV"
      by blast
  qed
  moreover have "finite (UNIV :: (PortConfig_Protocol \<times> 32 word) set)"
    using finite_protocols by (simp add: finite_prod)
  ultimately have "finite (UNIV :: port set)"
    by (meson finite_imageI finite_subset)
  then show ?thesis
    by (rule rev_finite_subset) simp
qed

subsection \<open>IsNoop and Commit\<close>

lemma IsNoop_iff_equal: "IsNoop prop \<longleftrightarrow> allocate prop = deallocate prop"
proof
  assume "IsNoop prop"
  then have c: "card (allocate prop) = card (deallocate prop)"
    and s: "allocate prop \<subseteq> deallocate prop"
    by (auto simp: IsNoop_def split: if_splits)
  from s c show "allocate prop = deallocate prop"
    by (simp add: card_subset_eq finite_port_set)
next
  assume "allocate prop = deallocate prop"
  then show "IsNoop prop"
    by (simp add: IsNoop_def)
qed

lemma Commit_ports:
  "allocator_ports (Commit prop pa) =
     (if IsNoop prop then allocator_ports pa
      else (allocator_ports pa - deallocate prop) \<union> allocate prop)"
  by (simp add: Commit_def)

lemma IsNoop_iff_unchanged:
  assumes "deallocate prop \<subseteq> allocator_ports pa"
    and "allocate prop \<inter> (allocator_ports pa - deallocate prop) = {}"
  shows "IsNoop prop \<longleftrightarrow> allocator_ports (Commit prop pa) = allocator_ports pa"
proof
  assume "IsNoop prop"
  then show "allocator_ports (Commit prop pa) = allocator_ports pa"
    by (simp add: Commit_def)
next
  assume u: "allocator_ports (Commit prop pa) = allocator_ports pa"
  show "IsNoop prop"
  proof (rule ccontr)
    assume n: "\<not> IsNoop prop"
    with u have e:
      "(allocator_ports pa - deallocate prop) \<union> allocate prop = allocator_ports pa"
      by (simp add: Commit_def)
    from e assms have "allocate prop = deallocate prop"
      by blast
    with n show False
      by (simp add: IsNoop_iff_equal)
  qed
qed

text \<open>
  C6, as amended. \<open>IsNoop\<close> is true exactly when the maps \<open>allocate\<close> and
  \<open>deallocate\<close> hold the same keys, and then \<open>Commit\<close> leaves the allocator as it is.
  The converse needs the state to agree with the proposal: when every key of
  \<open>deallocate\<close> is reserved in the allocator and no key of \<open>allocate\<close> is reserved
  there outside \<open>deallocate\<close>, \<open>IsNoop\<close> is true exactly when \<open>Commit\<close> leaves the
  reserved keys unchanged.
\<close>

theorem IsNoop_Commit:
  "(IsNoop prop \<longleftrightarrow> allocate prop = deallocate prop) \<and>
   (IsNoop prop \<longrightarrow> Commit prop pa = pa) \<and>
   (deallocate prop \<subseteq> allocator_ports pa \<and>
    allocate prop \<inter> (allocator_ports pa - deallocate prop) = {} \<longrightarrow>
      (IsNoop prop \<longleftrightarrow> allocator_ports (Commit prop pa) = allocator_ports pa))"
proof (intro conjI impI)
  show "IsNoop prop \<longleftrightarrow> allocate prop = deallocate prop"
    by (rule IsNoop_iff_equal)
  show "Commit prop pa = pa" if "IsNoop prop"
    using that by (simp add: Commit_def)
  show "IsNoop prop \<longleftrightarrow> allocator_ports (Commit prop pa) = allocator_ports pa"
    if "deallocate prop \<subseteq> allocator_ports pa \<and>
      allocate prop \<inter> (allocator_ports pa - deallocate prop) = {}"
    using that by (intro IsNoop_iff_unchanged) simp_all
qed

text \<open>
  The theorem at a proposal that releases the key tcp/8080 and reserves tcp/30000, on a
  state that holds tcp/8080: it is no no-op, and \<open>Commit\<close> changes the state.
\<close>

theorem IsNoop_Commit_witness:
  "\<not> IsNoop \<lparr>proposal_ports = None, allocate = {tcpKey 30000}, deallocate = {tcpKey 8080}\<rparr> \<and>
   {tcpKey 8080} \<subseteq> allocator_ports \<lparr>allocator_ports = {tcpKey 8080}\<rparr> \<and>
   allocator_ports
     (Commit \<lparr>proposal_ports = None, allocate = {tcpKey 30000}, deallocate = {tcpKey 8080}\<rparr>
        \<lparr>allocator_ports = {tcpKey 8080}\<rparr>) \<noteq> {tcpKey 8080}"
  using IsNoop_Commit [of
      "\<lparr>proposal_ports = None, allocate = {tcpKey 30000}, deallocate = {tcpKey 8080}\<rparr>"
      "\<lparr>allocator_ports = {tcpKey 8080}\<rparr>"]
  by (simp add: tcpKey_def IsNoop_def)

text \<open>
  C6 as stated fails where the state does not agree with the proposal: the proposal of
  \<open>Deallocate\<close> for an endpoint with the realized port tcp/8080, on an allocator that
  holds no key, is no no-op, and \<open>Commit\<close> leaves the allocator as it is.
\<close>

theorem IsNoop_Commit_counterexample:
  "Deallocate \<lparr>Endpoint_Spec = None, Endpoint_Ports = [webFixed 8080]\<rparr> =
     \<lparr>proposal_ports = None, allocate = {}, deallocate = {tcpKey 8080}\<rparr> \<and>
   \<not> IsNoop \<lparr>proposal_ports = None, allocate = {}, deallocate = {tcpKey 8080}\<rparr> \<and>
   allocator_ports
     (Commit \<lparr>proposal_ports = None, allocate = {}, deallocate = {tcpKey 8080}\<rparr>
        \<lparr>allocator_ports = {}\<rparr>) = allocator_ports \<lparr>allocator_ports = {}\<rparr>"
  by (simp add: Deallocate_def Commit_def IsNoop_def portKey_def example_defs)

subsection \<open>Allocate and the allocator's state\<close>

text \<open>
  C1. For every state, endpoint and spec, whatever \<open>Allocate\<close> returns, a proposal or an
  error, the call leaves the allocator's state, and so its set of reserved keys, as it
  was. The set changes when a returned proposal is committed: \<open>Commit\<close> then removes the
  keys of \<open>deallocate\<close> and adds those of \<open>allocate\<close>, unless the proposal is a no-op.
\<close>

theorem Allocate_leaves_state:
  "snd (Allocate rangeOrder pa endpoint spec) = pa \<and>
   allocator_ports (snd (Allocate rangeOrder pa endpoint spec)) = allocator_ports pa \<and>
   (\<forall>prop. fst (Allocate rangeOrder pa endpoint spec) = Inr prop \<longrightarrow>
      allocator_ports (Commit prop (snd (Allocate rangeOrder pa endpoint spec))) =
        (if IsNoop prop then allocator_ports pa
         else (allocator_ports pa - deallocate prop) \<union> allocate prop))"
proof -
  have "snd (Allocate rangeOrder pa endpoint spec) = pa"
    by (simp add: Allocate_def Let_def split: sum.splits prod.splits)
  then show ?thesis
    by (simp add: Commit_ports)
qed

text \<open>
  The theorem at a new endpoint that asks for one dynamic port, on an empty allocator:
  the call returns a proposal for tcp/30000 and leaves the allocator empty; committing the
  proposal reserves the key.
\<close>

theorem Allocate_leaves_state_witness:
  "fst (Allocate noKeys \<lparr>allocator_ports = {}\<rparr> newEndpoint (specOf [webDynamic])) =
     Inr \<lparr>proposal_ports = Some [webFixed 30000], allocate = {tcpKey 30000}, deallocate = {}\<rparr> \<and>
   snd (Allocate noKeys \<lparr>allocator_ports = {}\<rparr> newEndpoint (specOf [webDynamic])) =
     \<lparr>allocator_ports = {}\<rparr> \<and>
   allocator_ports
     (Commit \<lparr>proposal_ports = Some [webFixed 30000], allocate = {tcpKey 30000}, deallocate = {}\<rparr>
        (snd (Allocate noKeys \<lparr>allocator_ports = {}\<rparr> newEndpoint (specOf [webDynamic])))) =
     {tcpKey 30000}"
proof -
  have r: "fst (Allocate noKeys \<lparr>allocator_ports = {}\<rparr> newEndpoint (specOf [webDynamic])) =
     Inr \<lparr>proposal_ports = Some [webFixed 30000], allocate = {tcpKey 30000}, deallocate = {}\<rparr>"
    by (simp add: Allocate_def portsOfSpec_def example_defs constant_defs scan_first_ports)
  have n: "\<not> IsNoop \<lparr>proposal_ports = Some [webFixed 30000], allocate = {tcpKey 30000},
     deallocate = {}\<rparr>"
    by (simp add: IsNoop_def)
  show ?thesis
    using Allocate_leaves_state [of noKeys "\<lparr>allocator_ports = {}\<rparr>" newEndpoint
        "specOf [webDynamic]"] r n
    by auto
qed

subsection \<open>Allocate without a spec\<close>

lemma deallocatePorts_eq:
  "deallocatePorts ps D = D \<union> portKey ` {p \<in> set ps. PublishMode p \<noteq> PublishModeHost}"
  by (induction ps arbitrary: D) auto

text \<open>
  C10. For every endpoint, \<open>Allocate\<close> with a nil spec returns a proposal and no error.
  The proposal has no result ports, an empty map \<open>allocate\<close>, and as its map
  \<open>deallocate\<close> the keys of the endpoint's realized ports whose publish mode is not host;
  the proposal of \<open>Deallocate\<close> for the endpoint has the same three.
\<close>

theorem Allocate_nil_spec:
  "(\<exists>prop. fst (Allocate rangeOrder pa endpoint None) = Inr prop \<and>
      Ports prop = [] \<and> Ports prop = Ports (Deallocate endpoint) \<and>
      allocate prop = {} \<and> allocate prop = allocate (Deallocate endpoint) \<and>
      deallocate prop =
        portKey ` {p \<in> set (Endpoint_Ports endpoint). PublishMode p \<noteq> PublishModeHost} \<and>
      deallocate prop = deallocate (Deallocate endpoint))"
  by (simp add: Allocate_def portsOfSpec_def Deallocate_def Ports_def deallocatePorts_eq)

text \<open>
  The theorem at an endpoint with an ingress port tcp/8080 and a host port: the key of the
  ingress port alone is released.
\<close>

theorem Allocate_nil_spec_witness:
  "fst (Allocate noKeys \<lparr>allocator_ports = {tcpKey 8080}\<rparr>
      \<lparr>Endpoint_Spec = specOf [webFixed 8080],
       Endpoint_Ports = [webFixed 8080, (dnsFixed 53)\<lparr>PublishMode := PublishModeHost\<rparr>]\<rparr> None) =
     Inr \<lparr>proposal_ports = Some [], allocate = {}, deallocate = {tcpKey 8080}\<rparr> \<and>
   deallocate (Deallocate \<lparr>Endpoint_Spec = specOf [webFixed 8080],
       Endpoint_Ports = [webFixed 8080, (dnsFixed 53)\<lparr>PublishMode := PublishModeHost\<rparr>]\<rparr>) =
     {tcpKey 8080}"
  using Allocate_nil_spec [of noKeys "\<lparr>allocator_ports = {tcpKey 8080}\<rparr>"
      "\<lparr>Endpoint_Spec = specOf [webFixed 8080],
        Endpoint_Ports = [webFixed 8080, (dnsFixed 53)\<lparr>PublishMode := PublishModeHost\<rparr>]\<rparr>"]
  by (auto simp add: Allocate_def portsOfSpec_def Deallocate_def Ports_def portKey_def example_defs)

subsection \<open>AlreadyAllocated\<close>

text \<open>The four combinations of nil arguments that \<open>AlreadyAllocated\<close> answers.\<close>

lemma AlreadyAllocated_nil_cases:
  "AlreadyAllocated None None = Inr True"
  "AlreadyAllocated None (Some s) = Inr False"
  "Endpoint_Spec e = None \<Longrightarrow> AlreadyAllocated (Some e) (Some s) = Inr False"
  "Endpoint_Spec e = Some old \<Longrightarrow> EndpointSpec_Ports old \<noteq> [] \<Longrightarrow>
     AlreadyAllocated (Some e) None = Inr False"
  by (simp_all add: AlreadyAllocated_def)

text \<open>
  The combinations on which it dereferences a nil pointer: a nil spec, with an endpoint
  whose stored spec is nil or has no ports.
\<close>

lemma AlreadyAllocated_panics_iff:
  "AlreadyAllocated endpoint spec = Inl NilPointerDereference \<longleftrightarrow>
     spec = None \<and>
     (\<exists>e. endpoint = Some e \<and>
        (case Endpoint_Spec e of None \<Rightarrow> True | Some old \<Rightarrow> EndpointSpec_Ports old = []))"
  by (cases endpoint; cases spec) (auto simp: AlreadyAllocated_def split: option.splits)

text \<open>
  C8 fails on the code. With an endpoint whose stored spec is nil, or is a spec without
  ports, and a nil desired spec, none of the four tests of nil applies, and
  \<open>AlreadyAllocated\<close> goes on to read \<open>endpoint.Spec.Ports\<close> and \<open>spec.Ports\<close>: it
  panics and returns no boolean.
\<close>

theorem AlreadyAllocated_nil_panics:
  "AlreadyAllocated (Some \<lparr>Endpoint_Spec = None, Endpoint_Ports = []\<rparr>) None =
     Inl NilPointerDereference \<and>
   AlreadyAllocated (Some \<lparr>Endpoint_Spec = Some \<lparr>EndpointSpec_Ports = []\<rparr>,
     Endpoint_Ports = []\<rparr>) None = Inl NilPointerDereference"
  by (simp add: AlreadyAllocated_def)

lemma portsEqual_iff: "portsEqual a b \<longleftrightarrow> a = b"
  by (auto simp: portsEqual_def PortsMostlyEqual_def)

lemma matchesSome_iff: "matchesSome p specPorts \<longleftrightarrow> p \<in> set specPorts"
  by (induction specPorts) (auto simp: portsEqual_iff)

lemma portsLoop_iff: "portsLoop ps specPorts \<longleftrightarrow> set ps \<subseteq> set specPorts"
  by (induction ps) (auto simp: matchesSome_iff)

text \<open>
  What \<open>AlreadyAllocated\<close> computes on two specs: the lists have the same length, and every
  port of the stored spec occurs in the desired one.
\<close>

lemma AlreadyAllocated_specs:
  "Endpoint_Spec e = Some old \<Longrightarrow>
   AlreadyAllocated (Some e) (Some s) =
     Inr (length (EndpointSpec_Ports old) = length (EndpointSpec_Ports s) \<and>
          set (EndpointSpec_Ports old) \<subseteq> set (EndpointSpec_Ports s))"
  by (simp add: AlreadyAllocated_def portsLoop_iff)

lemma AlreadyAllocated_same_multiset:
  "Endpoint_Spec e = Some old \<Longrightarrow>
   mset (EndpointSpec_Ports old) = mset (EndpointSpec_Ports s) \<Longrightarrow>
   AlreadyAllocated (Some e) (Some s) = Inr True"
proof -
  assume e: "Endpoint_Spec e = Some old"
    and m: "mset (EndpointSpec_Ports old) = mset (EndpointSpec_Ports s)"
  from m have "length (EndpointSpec_Ports old) = length (EndpointSpec_Ports s)"
    by (rule mset_eq_length)
  moreover from m have "set (EndpointSpec_Ports old) = set (EndpointSpec_Ports s)"
    by (rule mset_eq_setD)
  ultimately show ?thesis
    using e by (simp add: AlreadyAllocated_specs)
qed

lemma AlreadyAllocated_distinct:
  assumes "Endpoint_Spec e = Some old" and "distinct (EndpointSpec_Ports old)"
    and "AlreadyAllocated (Some e) (Some s) = Inr True"
  shows "mset (EndpointSpec_Ports old) = mset (EndpointSpec_Ports s)"
proof -
  let ?a = "EndpointSpec_Ports old" and ?b = "EndpointSpec_Ports s"
  from assms have len: "length ?a = length ?b" and sub: "set ?a \<subseteq> set ?b"
    by (simp_all add: AlreadyAllocated_specs)
  have "card (set ?b) \<le> length ?b"
    by (rule card_length)
  also have "\<dots> = card (set ?a)"
    using assms(2) len by (simp add: distinct_card)
  finally have "set ?a = set ?b"
    using sub by (simp add: card_seteq)
  moreover from this have "distinct ?b"
    using len assms(2) by (metis card_distinct distinct_card)
  ultimately show ?thesis
    using assms(2) by (simp add: set_eq_iff_mset_eq_distinct)
qed

text \<open>
  C7 fails on the code. The stored spec asks twice for a dynamic port for \<open>web\<close>; the
  desired spec asks for it once and for \<open>dns\<close> on tcp/53. The lists have the same length
  and each stored port occurs in the desired spec, so \<open>AlreadyAllocated\<close> returns true,
  while the two lists differ as multisets.
\<close>

theorem AlreadyAllocated_duplicate:
  "AlreadyAllocated
     (Some \<lparr>Endpoint_Spec = specOf [webDynamic, webDynamic],
            Endpoint_Ports = [webFixed 30000, webFixed 30001]\<rparr>)
     (specOf [webDynamic, dnsFixed 53]) = Inr True \<and>
   mset [webDynamic, webDynamic] \<noteq> mset [webDynamic, dnsFixed 53]"
  by (simp add: AlreadyAllocated_def portsEqual_def PortsMostlyEqual_def example_defs)

subsection \<open>The first loop of Allocate: recovery of dynamic ports\<close>

lemma takeAssigned_eq:
  "takeAssigned spec ps final =
     (if \<exists>p \<in> set ps. PortsMostlyEqual (Some spec) (Some p)
      then final\<lparr>PublishedPort :=
        PublishedPort (last (filter (\<lambda>p. PortsMostlyEqual (Some spec) (Some p)) ps))\<rparr>
      else final)"
  by (induction ps arbitrary: final) (auto simp: filter_empty_conv)

lemma takeAssigned_twice:
  "takeAssigned spec ps (takeAssigned spec ps final) = takeAssigned spec ps final"
  by (simp add: takeAssigned_eq)

lemma recoverFromOld_eq:
  "recoverFromOld spec olds realized final =
     (if \<exists>old \<in> set olds. portsEqual old spec then takeAssigned spec realized final
      else final)"
proof (induction olds arbitrary: final)
  case Nil
  show ?case by simp
next
  case (Cons old olds)
  show ?case
    by (simp add: Cons.IH takeAssigned_twice)
qed

lemma recoverPorts_length:
  "recoverPorts endpoint specs = Inr finals \<Longrightarrow> length finals = length specs"
  by (induction specs arbitrary: finals) (auto simp: Let_def split: if_splits sum.splits)

lemma recoverPorts_nth_dynamic:
  "recoverPorts endpoint specs = Inr finals \<Longrightarrow> i < length specs \<Longrightarrow>
   PublishMode (specs ! i) = PublishModeIngress \<Longrightarrow> PublishedPort (specs ! i) = 0 \<Longrightarrow>
   finals ! i =
     (case Endpoint_Spec endpoint of
        None \<Rightarrow> specs ! i
      | Some old \<Rightarrow>
          recoverFromOld (specs ! i) (EndpointSpec_Ports old) (Endpoint_Ports endpoint)
            (specs ! i))"
proof (induction specs arbitrary: finals i)
  case Nil
  then show ?case by simp
next
  case (Cons s specs)
  from Cons.prems(1) obtain f fs where fs: "recoverPorts endpoint specs = Inr fs"
    and finals: "finals = f # fs"
    by (auto simp: Let_def split: if_splits sum.splits)
  show ?case
  proof (cases i)
    case 0
    with Cons.prems finals fs show ?thesis
      by (auto simp: Let_def split: if_splits sum.splits option.splits)
  next
    case (Suc j)
    with Cons.prems have "j < length specs"
      "PublishMode (specs ! j) = PublishModeIngress" "PublishedPort (specs ! j) = 0"
      by simp_all
    from Cons.IH [OF fs this] show ?thesis
      unfolding Suc finals by (simp split: option.splits)
  qed
qed

lemma not_host_iff: "m \<noteq> PublishModeHost \<longleftrightarrow> m = PublishModeIngress"
  by (cases m) simp_all

lemma recoverPorts_nth_fixed:
  "recoverPorts endpoint specs = Inr finals \<Longrightarrow> i < length specs \<Longrightarrow>
   PublishMode (specs ! i) = PublishModeHost \<or> PublishedPort (specs ! i) \<noteq> 0 \<Longrightarrow>
   finals ! i = specs ! i"
proof (induction specs arbitrary: finals i)
  case Nil
  then show ?case by simp
next
  case (Cons s specs)
  from Cons.prems(1) obtain f fs where fs: "recoverPorts endpoint specs = Inr fs"
    and finals: "finals = f # fs"
    by (auto simp: Let_def split: if_splits sum.splits)
  show ?case
  proof (cases i)
    case 0
    with Cons.prems finals fs show ?thesis
      by (auto simp: Let_def split: if_splits sum.splits option.splits)
  next
    case (Suc j)
    with Cons.prems have "j < length specs"
      "PublishMode (specs ! j) = PublishModeHost \<or> PublishedPort (specs ! j) \<noteq> 0"
      by simp_all
    from Cons.IH [OF fs this] show ?thesis
      unfolding Suc finals by simp
  qed
qed

lemma takeAssigned_cases:
  "takeAssigned spec ps spec = spec \<or>
   (\<exists>p \<in> set ps. PortsMostlyEqual (Some spec) (Some p) \<and>
      takeAssigned spec ps spec = spec\<lparr>PublishedPort := PublishedPort p\<rparr>)"
proof (cases "\<exists>p \<in> set ps. PortsMostlyEqual (Some spec) (Some p)")
  case False
  then show ?thesis
    by (simp add: takeAssigned_eq)
next
  case True
  let ?P = "\<lambda>p. PortsMostlyEqual (Some spec) (Some p)"
  from True have "filter ?P ps \<noteq> []"
    by (simp add: filter_empty_conv)
  then have "last (filter ?P ps) \<in> set (filter ?P ps)"
    by (rule last_in_set)
  then have "last (filter ?P ps) \<in> set ps" "?P (last (filter ?P ps))"
    by simp_all
  with True show ?thesis
    by (auto simp: takeAssigned_eq)
qed




subsection \<open>The first allocation loop: ports with a published port\<close>

lemma fixedKeys_simps:
  "fixedKeys [] = []"
  "fixedKeys (p # ps) =
     (if PublishedPort p = 0 \<or> PublishMode p = PublishModeHost then fixedKeys ps
      else portKey p # fixedKeys ps)"
  "fixedKeys (xs @ ys) = fixedKeys xs @ fixedKeys ys"
  by (simp_all add: fixedKeys_def)

lemma allocateFixed_append:
  "allocateFixed used D A (xs @ ys) =
     (case allocateFixed used D A xs of
        Inl e \<Rightarrow> Inl e
      | Inr A' \<Rightarrow> allocateFixed used D A' ys)"
  by (induction xs arbitrary: A) simp_all

text \<open>When the loop succeeds, it has added the keys of its ports, once each.\<close>

lemma allocateFixed_Inr:
  "allocateFixed used D A ps = Inr A' \<Longrightarrow>
     A' = A \<union> set (fixedKeys ps) \<and> distinct (fixedKeys ps) \<and>
     set (fixedKeys ps) \<inter> A = {} \<and>
     (\<forall>k \<in> set (fixedKeys ps). k \<in> used \<longrightarrow> k \<in> D)"
proof (induction ps arbitrary: A)
  case Nil
  then show ?case by (simp add: fixedKeys_simps)
next
  case (Cons p ps)
  show ?case
  proof (cases "PublishedPort p = 0 \<or> PublishMode p = PublishModeHost")
    case True
    with Cons.prems have "allocateFixed used D A ps = Inr A'"
      by simp
    from Cons.IH [OF this] True show ?thesis
      by (simp add: fixedKeys_simps)
  next
    case False
    with Cons.prems have ok: "\<not> (portKey p \<in> used \<and> portKey p \<notin> D)" "portKey p \<notin> A"
      and rest: "allocateFixed used D (insert (portKey p) A) ps = Inr A'"
      by (auto split: if_splits)
    from Cons.IH [OF rest] False ok show ?thesis
      by (auto simp: fixedKeys_simps)
  qed
qed

text \<open>The loop fails with no other errors than these two.\<close>

lemma allocateFixed_Inl:
  "allocateFixed used D A ps = Inl e \<Longrightarrow>
     (\<exists>k \<in> set (fixedKeys ps). e = ErrResourceInUse k \<and> k \<in> used \<and> k \<notin> D) \<or>
     (\<exists>k \<in> set (fixedKeys ps). e = ErrInvalidSpec (PublishedPortAssignedTwice k) \<and>
        (\<not> distinct (fixedKeys ps) \<or> k \<in> A))"
proof (induction ps arbitrary: A)
  case Nil
  then show ?case by simp
next
  case (Cons p ps)
  show ?case
  proof (cases "PublishedPort p = 0 \<or> PublishMode p = PublishModeHost")
    case True
    with Cons.prems have "allocateFixed used D A ps = Inl e"
      by simp
    from Cons.IH [OF this] True show ?thesis
      by (simp add: fixedKeys_simps)
  next
    case False
    show ?thesis
    proof (cases "portKey p \<in> used \<and> portKey p \<notin> D")
      case True
      with False Cons.prems show ?thesis
        by (auto simp: fixedKeys_simps)
    next
      case noconflict: False
      show ?thesis
      proof (cases "portKey p \<in> A")
        case True
        with False noconflict Cons.prems show ?thesis
          by (auto simp: fixedKeys_simps)
      next
        case fresh: False
        with False noconflict Cons.prems
        have "allocateFixed used D (insert (portKey p) A) ps = Inl e"
          by auto
        from Cons.IH [OF this] False show ?thesis
          by (auto simp: fixedKeys_simps)
      qed
    qed
  qed
qed

text \<open>
  Without a key that is in use and not released, the loop fails exactly when a key occurs
  twice among its ports or is in \<open>allocate\<close> already.
\<close>

lemma allocateFixed_no_conflict:
  "\<forall>k \<in> set (fixedKeys ps). k \<in> used \<longrightarrow> k \<in> D \<Longrightarrow>
   (distinct (fixedKeys ps) \<and> set (fixedKeys ps) \<inter> A = {} \<longrightarrow>
      allocateFixed used D A ps = Inr (A \<union> set (fixedKeys ps))) \<and>
   (\<not> (distinct (fixedKeys ps) \<and> set (fixedKeys ps) \<inter> A = {}) \<longrightarrow>
      (\<exists>k. allocateFixed used D A ps = Inl (ErrInvalidSpec (PublishedPortAssignedTwice k))))"
proof (induction ps arbitrary: A)
  case Nil
  then show ?case by (simp add: fixedKeys_simps)
next
  case (Cons p ps)
  show ?case
  proof (cases "PublishedPort p = 0 \<or> PublishMode p = PublishModeHost")
    case True
    with Cons.prems have "\<forall>k \<in> set (fixedKeys ps). k \<in> used \<longrightarrow> k \<in> D"
      by (simp add: fixedKeys_simps)
    from Cons.IH [OF this, of A] True show ?thesis
      by (simp add: fixedKeys_simps)
  next
    case False
    with Cons.prems have p: "\<not> (portKey p \<in> used \<and> portKey p \<notin> D)"
      and ps: "\<forall>k \<in> set (fixedKeys ps). k \<in> used \<longrightarrow> k \<in> D"
      by (auto simp: fixedKeys_simps)
    show ?thesis
    proof (cases "portKey p \<in> A")
      case True
      with False p show ?thesis
        by (auto simp: fixedKeys_simps)
    next
      case fresh: False
      from Cons.IH [OF ps, of "insert (portKey p) A"] False p fresh show ?thesis
        by (auto simp: fixedKeys_simps split: if_splits)
    qed
  qed
qed

subsection \<open>The second allocation loop, in outline\<close>

lemma allocateDynamic_Inl:
  "allocateDynamic rangeOrder used D A k ps = Inl e \<Longrightarrow>
     \<exists>p \<in> set ps. e = ErrResourceExhausted (Protocol p)"
proof (induction ps arbitrary: A k)
  case Nil
  then show ?case by simp
next
  case (Cons p ps)
  from Cons.prems show ?case
    by (auto split: if_splits sum.splits option.splits prod.splits dest: Cons.IH)
qed

lemma allocateDynamic_mono:
  "allocateDynamic rangeOrder used D A k ps = Inr (ps', A') \<Longrightarrow> A \<subseteq> A'"
proof (induction ps arbitrary: A k ps')
  case Nil
  then show ?case by simp
next
  case (Cons p ps)
  from Cons.prems show ?case
    by (auto split: if_splits sum.splits option.splits prod.splits dest: Cons.IH)
qed

lemma allocateDynamic_none:
  "\<forall>p \<in> set ps. PublishedPort p \<noteq> 0 \<or> PublishMode p = PublishModeHost \<Longrightarrow>
   allocateDynamic rangeOrder used D A k ps = Inr (ps, A)"
  by (induction ps arbitrary: k) auto

lemma recoverPorts_error:
  "recoverPorts endpoint specs = Inl e \<Longrightarrow>
     \<exists>s \<in> set specs.
       (masterPortEnd < PublishedPort s \<and>
        e = ErrInvalidSpec (PublishedPortOutOfRange (PublishedPort s))) \<or>
       (masterPortEnd < TargetPort s \<and>
        e = ErrInvalidSpec (TargetPortOutOfRange (TargetPort s)))"
  by (induction specs) (auto simp: Let_def split: if_splits sum.splits)

lemma recoverPorts_Inr_in_range:
  "recoverPorts endpoint specs = Inr finals \<Longrightarrow> s \<in> set specs \<Longrightarrow>
     \<not> masterPortEnd < PublishedPort s \<and> \<not> masterPortEnd < TargetPort s"
  by (induction specs arbitrary: finals) (auto simp: Let_def split: if_splits sum.splits)

lemma recoverPorts_out_of_range:
  assumes "s \<in> set specs" and "masterPortEnd < PublishedPort s \<or> masterPortEnd < TargetPort s"
  shows "\<exists>e. recoverPorts endpoint specs = Inl e"
proof (cases "recoverPorts endpoint specs")
  case (Inl e)
  then show ?thesis by simp
next
  case (Inr finals)
  from recoverPorts_Inr_in_range [OF Inr assms(1)] assms(2) show ?thesis
    by simp
qed

lemma recoverPorts_in_range:
  "\<forall>s \<in> set specs. \<not> (masterPortEnd < PublishedPort s \<or> masterPortEnd < TargetPort s) \<Longrightarrow>
     \<exists>finals. recoverPorts endpoint specs = Inr finals"
  by (induction specs) (auto simp: Let_def split: if_splits sum.splits)

text \<open>
  C3, as amended. Let the first loop of \<open>Allocate\<close> return the result ports, and let \<open>p\<close>
  be one of them, with a published port and ingress mode.

  \<^item> If the key of \<open>p\<close> is in the allocator's map and not in \<open>deallocate\<close>, the call
    returns no proposal; and when the first allocation loop reaches \<open>p\<close>, having accepted
    the ports before it, the call fails with \<open>ErrResourceInUse\<close> for that key.
  \<^item> If the loop reaches \<open>p\<close> with a map \<open>allocate\<close> that does not hold the key, and the
    key is in \<open>deallocate\<close> or not in the allocator's map, the loop accepts \<open>p\<close> and adds
    the key to \<open>allocate\<close>: the call returns what the rest of the loop and the second
    allocation loop return from there, and a proposal that it returns holds the key.
  \<^item> If no key of a result port with a published port is in the allocator's map without
    being in \<open>deallocate\<close>, and no two of these keys are equal, the first allocation loop
    accepts all of them, and the call can only fail with \<open>ErrResourceExhausted\<close>; where no
    result port lacks a published port, it returns the proposal with the result ports,
    their keys as \<open>allocate\<close>, and the released keys.
\<close>

theorem allocateFixed_port:
  assumes "recoverPorts endpoint (portsOfSpec spec) = Inr (pre @ p # rest)"
    and "PublishedPort p \<noteq> 0" and "PublishMode p = PublishModeIngress"
    and "used = allocator_ports pa" and "D = deallocatePorts (Endpoint_Ports endpoint) {}"
  shows
    "(portKey p \<in> used \<and> portKey p \<notin> D \<longrightarrow>
        (\<forall>q. fst (Allocate rangeOrder pa endpoint spec) \<noteq> Inr q) \<and>
        (allocateFixed used D {} pre = Inr A \<longrightarrow>
           fst (Allocate rangeOrder pa endpoint spec) = Inl (ErrResourceInUse (portKey p)))) \<and>
     ((portKey p \<in> D \<or> portKey p \<notin> used) \<and>
      allocateFixed used D {} pre = Inr A \<and> portKey p \<notin> A \<longrightarrow>
        allocateFixed used D {} (pre @ [p]) = Inr (insert (portKey p) A) \<and>
        fst (Allocate rangeOrder pa endpoint spec) =
          (case allocateFixed used D (insert (portKey p) A) rest of
             Inl e \<Rightarrow> Inl e
           | Inr A1 \<Rightarrow>
               (case allocateDynamic rangeOrder used D A1 0 (pre @ p # rest) of
                  Inl e \<Rightarrow> Inl e
                | Inr (ports, A2) \<Rightarrow>
                    Inr \<lparr>proposal_ports = Some ports, allocate = A2, deallocate = D\<rparr>)) \<and>
        (\<forall>q. fst (Allocate rangeOrder pa endpoint spec) = Inr q \<longrightarrow>
           portKey p \<in> allocate q)) \<and>
     ((\<forall>k \<in> set (fixedKeys (pre @ p # rest)). k \<in> used \<longrightarrow> k \<in> D) \<and>
      distinct (fixedKeys (pre @ p # rest)) \<longrightarrow>
        allocateFixed used D {} (pre @ p # rest) = Inr (set (fixedKeys (pre @ p # rest))) \<and>
        (\<forall>e. fst (Allocate rangeOrder pa endpoint spec) = Inl e \<longrightarrow>
           (\<exists>r \<in> set (pre @ p # rest). e = ErrResourceExhausted (Protocol r))) \<and>
        ((\<forall>r \<in> set (pre @ p # rest). PublishedPort r \<noteq> 0 \<or> PublishMode r = PublishModeHost) \<longrightarrow>
           fst (Allocate rangeOrder pa endpoint spec) =
             Inr \<lparr>proposal_ports = Some (pre @ p # rest),
                  allocate = set (fixedKeys (pre @ p # rest)), deallocate = D\<rparr>))"
proof -
  let ?finals = "pre @ p # rest"
  let ?call = "fst (Allocate rangeOrder pa endpoint spec)"
  have key: "portKey p \<in> set (fixedKeys ?finals)"
    using assms(2,3) by (simp add: fixedKeys_simps)
  have call: "?call =
      (case allocateFixed used D {} ?finals of
         Inl e \<Rightarrow> Inl e
       | Inr A1 \<Rightarrow>
           (case allocateDynamic rangeOrder used D A1 0 ?finals of
              Inl e \<Rightarrow> Inl e
            | Inr (ports, A2) \<Rightarrow>
                Inr \<lparr>proposal_ports = Some ports, allocate = A2, deallocate = D\<rparr>))"
    using assms(1,4,5)
    by (simp add: Allocate_def Let_def split: sum.splits prod.splits)
  have success: "\<exists>A1 ports. allocateFixed used D {} ?finals = Inr A1 \<and>
      allocateDynamic rangeOrder used D A1 0 ?finals = Inr (ports, allocate q)"
    if "?call = Inr q" for q
    using that unfolding call by (auto split: sum.splits prod.splits)
  have stays: "portKey p \<in> allocate q" if "?call = Inr q" for q
  proof -
    from success [OF that] obtain A1 ports where
      f: "allocateFixed used D {} ?finals = Inr A1" and
      d: "allocateDynamic rangeOrder used D A1 0 ?finals = Inr (ports, allocate q)"
      by blast
    from allocateFixed_Inr [OF f] key have "portKey p \<in> A1"
      by simp
    with allocateDynamic_mono [OF d] show ?thesis
      by blast
  qed
  have part1: "(\<forall>q. ?call \<noteq> Inr q) \<and>
      (allocateFixed used D {} pre = Inr A \<longrightarrow> ?call = Inl (ErrResourceInUse (portKey p)))"
    if c: "portKey p \<in> used \<and> portKey p \<notin> D"
  proof (intro conjI allI impI)
    fix q
    show "?call \<noteq> Inr q"
    proof
      assume "?call = Inr q"
      from success [OF this] obtain A1 where "allocateFixed used D {} ?finals = Inr A1"
        by blast
      from allocateFixed_Inr [OF this] key c show False
        by blast
    qed
  next
    assume "allocateFixed used D {} pre = Inr A"
    with c assms(2,3) show "?call = Inl (ErrResourceInUse (portKey p))"
      unfolding call by (simp add: allocateFixed_append)
  qed
  have part2: "allocateFixed used D {} (pre @ [p]) = Inr (insert (portKey p) A) \<and>
      ?call =
        (case allocateFixed used D (insert (portKey p) A) rest of
           Inl e \<Rightarrow> Inl e
         | Inr A1 \<Rightarrow>
             (case allocateDynamic rangeOrder used D A1 0 ?finals of
                Inl e \<Rightarrow> Inl e
              | Inr (ports, A2) \<Rightarrow>
                  Inr \<lparr>proposal_ports = Some ports, allocate = A2, deallocate = D\<rparr>)) \<and>
      (\<forall>q. ?call = Inr q \<longrightarrow> portKey p \<in> allocate q)"
    if c: "(portKey p \<in> D \<or> portKey p \<notin> used) \<and>
      allocateFixed used D {} pre = Inr A \<and> portKey p \<notin> A"
  proof (intro conjI allI impI)
    from c assms(2,3) show "allocateFixed used D {} (pre @ [p]) = Inr (insert (portKey p) A)"
      by (auto simp: allocateFixed_append)
    from c assms(2,3)
    have "allocateFixed used D {} ?finals = allocateFixed used D (insert (portKey p) A) rest"
      by (auto simp: allocateFixed_append)
    then show "?call =
        (case allocateFixed used D (insert (portKey p) A) rest of
           Inl e \<Rightarrow> Inl e
         | Inr A1 \<Rightarrow>
             (case allocateDynamic rangeOrder used D A1 0 ?finals of
                Inl e \<Rightarrow> Inl e
              | Inr (ports, A2) \<Rightarrow>
                  Inr \<lparr>proposal_ports = Some ports, allocate = A2, deallocate = D\<rparr>))"
      unfolding call by simp
  next
    fix q
    assume "?call = Inr q"
    then show "portKey p \<in> allocate q"
      by (rule stays)
  qed
  have part3: "allocateFixed used D {} ?finals = Inr (set (fixedKeys ?finals)) \<and>
      (\<forall>e. ?call = Inl e \<longrightarrow> (\<exists>r \<in> set ?finals. e = ErrResourceExhausted (Protocol r))) \<and>
      ((\<forall>r \<in> set ?finals. PublishedPort r \<noteq> 0 \<or> PublishMode r = PublishModeHost) \<longrightarrow>
         ?call = Inr \<lparr>proposal_ports = Some ?finals, allocate = set (fixedKeys ?finals),
           deallocate = D\<rparr>)"
    if c: "(\<forall>k \<in> set (fixedKeys ?finals). k \<in> used \<longrightarrow> k \<in> D) \<and>
      distinct (fixedKeys ?finals)"
  proof -
    from c have free: "\<forall>k \<in> set (fixedKeys ?finals). k \<in> used \<longrightarrow> k \<in> D"
      and dist: "distinct (fixedKeys ?finals)"
      by simp_all
    from allocateFixed_no_conflict [OF free, of "{}"] dist
    have f: "allocateFixed used D {} ?finals = Inr (set (fixedKeys ?finals))"
      by simp
    have "\<exists>r \<in> set ?finals. e = ErrResourceExhausted (Protocol r)" if "?call = Inl e" for e
    proof -
      from that f have "allocateDynamic rangeOrder used D (set (fixedKeys ?finals)) 0 ?finals
          = Inl e"
        unfolding call by (simp split: sum.splits prod.splits)
      then show ?thesis
        by (rule allocateDynamic_Inl)
    qed
    moreover have "?call = Inr \<lparr>proposal_ports = Some ?finals,
        allocate = set (fixedKeys ?finals), deallocate = D\<rparr>"
      if "\<forall>r \<in> set ?finals. PublishedPort r \<noteq> 0 \<or> PublishMode r = PublishModeHost"
      unfolding call using f allocateDynamic_none [OF that] by simp
    ultimately show ?thesis
      using f by blast
  qed
  from part1 part2 part3 show ?thesis
    by blast
qed

text \<open>
  The theorem at an endpoint that holds tcp/8080 for \<open>web\<close>, on an allocator that holds
  tcp/8080 and tcp/53. A spec that keeps \<open>web\<close> on tcp/8080, which the call releases, gets
  a proposal that reserves tcp/8080 again. A spec that also asks for \<open>dns\<close> on tcp/53,
  which is in use, gets \<open>ErrResourceInUse\<close> when the loop reaches that port.
\<close>

theorem allocateFixed_port_witness:
  "fst (Allocate (visitOrder [tcpKey 8080]) \<lparr>allocator_ports = {tcpKey 8080, tcpKey 53}\<rparr>
         \<lparr>Endpoint_Spec = specOf [webFixed 8080], Endpoint_Ports = [webFixed 8080]\<rparr>
         (specOf [webFixed 8080])) =
     Inr \<lparr>proposal_ports = Some [webFixed 8080], allocate = {tcpKey 8080},
          deallocate = {tcpKey 8080}\<rparr> \<and>
   allocateFixed {tcpKey 8080, tcpKey 53} {tcpKey 8080} {} ([] @ [webFixed 8080]) =
     Inr (insert (portKey (webFixed 8080)) {}) \<and>
   fst (Allocate (visitOrder [tcpKey 8080]) \<lparr>allocator_ports = {tcpKey 8080, tcpKey 53}\<rparr>
         \<lparr>Endpoint_Spec = specOf [webFixed 8080], Endpoint_Ports = [webFixed 8080]\<rparr>
         (specOf [webFixed 8080, dnsFixed 53])) = Inl (ErrResourceInUse (tcpKey 53))"
proof -
  let ?pa = "\<lparr>allocator_ports = {tcpKey 8080, tcpKey 53}\<rparr>"
  let ?e = "\<lparr>Endpoint_Spec = specOf [webFixed 8080], Endpoint_Ports = [webFixed 8080]\<rparr>"
  let ?order = "visitOrder [tcpKey 8080]"
  have r0: "recoverPorts ?e (portsOfSpec (specOf [webFixed 8080])) =
      Inr ([] @ webFixed 8080 # [])"
    and r1: "recoverPorts ?e (portsOfSpec (specOf [webFixed 8080, dnsFixed 53])) =
      Inr ([webFixed 8080] @ dnsFixed 53 # [])"
    by (simp_all add: portsOfSpec_def example_defs constant_defs)
  have w: "PublishedPort (webFixed 8080) \<noteq> 0" "PublishMode (webFixed 8080) = PublishModeIngress"
    and d: "PublishedPort (dnsFixed 53) \<noteq> 0" "PublishMode (dnsFixed 53) = PublishModeIngress"
    by (simp_all add: example_defs)
  have u: "{tcpKey 8080, tcpKey 53} = allocator_ports ?pa"
    and D: "{tcpKey 8080} = deallocatePorts (Endpoint_Ports ?e) {}"
    by (simp_all add: portKey_def example_defs)
  have k: "portKey (webFixed 8080) = tcpKey 8080" "portKey (dnsFixed 53) = tcpKey 53"
    "tcpKey 53 \<noteq> tcpKey 8080"
    "fixedKeys ([] @ webFixed 8080 # []) = [tcpKey 8080]"
    by (simp_all add: fixedKeys_def portKey_def example_defs)
  have a0: "allocateFixed {tcpKey 8080, tcpKey 53} {tcpKey 8080} {} [] = Inr {}"
    by simp
  have a1: "allocateFixed {tcpKey 8080, tcpKey 53} {tcpKey 8080} {} [webFixed 8080] =
      Inr {tcpKey 8080}"
    by (simp add: portKey_def example_defs)
  from allocateFixed_port [OF r0 w u D, of ?order "{}"] a0 k
  have c1: "fst (Allocate ?order ?pa ?e (specOf [webFixed 8080])) =
      Inr \<lparr>proposal_ports = Some [webFixed 8080], allocate = {tcpKey 8080},
           deallocate = {tcpKey 8080}\<rparr>"
    and c2: "allocateFixed {tcpKey 8080, tcpKey 53} {tcpKey 8080} {} ([] @ [webFixed 8080]) =
      Inr (insert (portKey (webFixed 8080)) {})"
    by (simp_all add: w)
  from allocateFixed_port [OF r1 d u D, of ?order "{tcpKey 8080}"] a1 k
  have c3: "fst (Allocate ?order ?pa ?e (specOf [webFixed 8080, dnsFixed 53])) =
      Inl (ErrResourceInUse (tcpKey 53))"
    by simp
  from c1 c2 c3 show ?thesis
    by simp
qed

text \<open>
  C3 as stated fails where the loop does not reach the port. On an allocator that holds
  tcp/53, a new endpoint asks for \<open>web\<close> on tcp/80 twice and for \<open>dns\<close> on tcp/53. The
  key of \<open>dns\<close> is in the allocator's map and not in \<open>deallocate\<close>, yet the call fails
  with \<open>ErrInvalidSpec\<close>: the loop returns at the second port, before it looks at the
  third.
\<close>

theorem allocateFixed_port_counterexample:
  "recoverPorts newEndpoint (portsOfSpec (specOf [webFixed 80, webFixed 80, dnsFixed 53])) =
     Inr [webFixed 80, webFixed 80, dnsFixed 53] \<and>
   PublishedPort (dnsFixed 53) \<noteq> 0 \<and> PublishMode (dnsFixed 53) = PublishModeIngress \<and>
   portKey (dnsFixed 53) \<in> allocator_ports \<lparr>allocator_ports = {tcpKey 53}\<rparr> \<and>
   portKey (dnsFixed 53) \<notin> deallocatePorts (Endpoint_Ports newEndpoint) {} \<and>
   fst (Allocate noKeys \<lparr>allocator_ports = {tcpKey 53}\<rparr> newEndpoint
          (specOf [webFixed 80, webFixed 80, dnsFixed 53])) =
     Inl (ErrInvalidSpec (PublishedPortAssignedTwice (tcpKey 80)))"
  by (simp add: Allocate_def portsOfSpec_def portKey_def example_defs constant_defs)

subsection \<open>When Allocate returns ErrInvalidSpec\<close>

lemma Allocate_InvalidSpec_cases:
  assumes "recoverPorts endpoint (portsOfSpec spec) = Inr finals"
  shows "(\<exists>r. fst (Allocate rangeOrder pa endpoint spec) = Inl (ErrInvalidSpec r)) \<longleftrightarrow>
    (\<exists>r. allocateFixed (allocator_ports pa) (deallocatePorts (Endpoint_Ports endpoint) {}) {}
       finals = Inl (ErrInvalidSpec r))"
proof -
  let ?used = "allocator_ports pa" and ?D = "deallocatePorts (Endpoint_Ports endpoint) {}"
  show ?thesis
  proof (cases "allocateFixed ?used ?D {} finals")
    case (Inl e)
    with assms show ?thesis
      by (simp add: Allocate_def)
  next
    case (Inr A)
    show ?thesis
    proof (cases "allocateDynamic rangeOrder ?used ?D A 0 finals")
      case (Inl e)
      from allocateDynamic_Inl [OF Inl] obtain pr where "e = ErrResourceExhausted pr"
        by blast
      with assms Inr Inl show ?thesis
        by (simp add: Allocate_def)
    next
      case inr: (Inr res)
      with assms Inr show ?thesis
        by (simp add: Allocate_def split: prod.splits)
    qed
  qed
qed

text \<open>
  The keys of the result ports of the first loop: those of the spec's ports, in their
  order, and among them keys of recovered ports, which the call releases.
\<close>

lemma recoverPorts_fixedKeys:
  "recoverPorts endpoint specs = Inr finals \<Longrightarrow>
     set (fixedKeys specs) \<subseteq> set (fixedKeys finals) \<and>
     (distinct (fixedKeys finals) \<longrightarrow> distinct (fixedKeys specs)) \<and>
     (\<forall>k \<in> set (fixedKeys finals).
        k \<in> set (fixedKeys specs) \<or> k \<in> deallocatePorts (Endpoint_Ports endpoint) {})"
proof (induction specs arbitrary: finals)
  case Nil
  then show ?case by (simp add: fixedKeys_simps)
next
  case (Cons s specs)
  from Cons.prems obtain f fs where fs: "recoverPorts endpoint specs = Inr fs"
    and finals: "finals = f # fs"
    by (auto simp: Let_def split: if_splits sum.splits)
  note ih = Cons.IH [OF fs]
  show ?case
  proof (cases "PublishMode s = PublishModeHost \<or> PublishedPort s \<noteq> 0")
    case True
    from recoverPorts_nth_fixed [OF Cons.prems, of 0] True finals have "f = s"
      by simp
    with ih finals show ?thesis
      by (auto simp: fixedKeys_simps)
  next
    case False
    then have dyn: "PublishMode s = PublishModeIngress" "PublishedPort s = 0"
      by (simp_all add: not_host_iff)
    from recoverPorts_nth_dynamic [OF Cons.prems, of 0] dyn finals
    have f: "f = s \<or> f = takeAssigned s (Endpoint_Ports endpoint) s"
      by (auto simp: recoverFromOld_eq split: option.splits if_splits)
    have "f = s \<or> (\<exists>p \<in> set (Endpoint_Ports endpoint).
        PortsMostlyEqual (Some s) (Some p) \<and> f = s\<lparr>PublishedPort := PublishedPort p\<rparr>)"
      using f takeAssigned_cases [of s "Endpoint_Ports endpoint"] by auto
    then show ?thesis
    proof
      assume "f = s"
      with ih finals dyn show ?thesis
        by (auto simp: fixedKeys_simps)
    next
      assume "\<exists>p \<in> set (Endpoint_Ports endpoint).
        PortsMostlyEqual (Some s) (Some p) \<and> f = s\<lparr>PublishedPort := PublishedPort p\<rparr>"
      then obtain p where p: "p \<in> set (Endpoint_Ports endpoint)"
        "PortsMostlyEqual (Some s) (Some p)" "f = s\<lparr>PublishedPort := PublishedPort p\<rparr>"
        by blast
      from p(2,3) dyn have "portKey f = portKey p" "PublishMode p \<noteq> PublishModeHost"
        by (simp_all add: portKey_def PortsMostlyEqual_def)
      with p(1) have "portKey f \<in> deallocatePorts (Endpoint_Ports endpoint) {}"
        by (auto simp: deallocatePorts_eq)
      with ih finals dyn show ?thesis
        by (auto simp: fixedKeys_simps)
    qed
  qed
qed

text \<open>
  C5, as amended. If a port of the spec has a published port or a target port above 65535,
  \<open>Allocate\<close> returns \<open>ErrInvalidSpec\<close>, and it is its first loop that fails, before the
  proposal and its maps exist. Otherwise: if two ports of the spec with a published port
  and ingress mode have the same key, and no key of such a port is in the allocator's map
  without being in \<open>deallocate\<close>, \<open>Allocate\<close> returns \<open>ErrInvalidSpec\<close>; and it returns
  \<open>ErrInvalidSpec\<close> only if two result ports of the first loop, with a published port and
  ingress mode, have the same key.
\<close>

theorem Allocate_InvalidSpec:
  "((\<exists>s \<in> set (portsOfSpec spec).
        masterPortEnd < PublishedPort s \<or> masterPortEnd < TargetPort s) \<longrightarrow>
      (\<exists>r. recoverPorts endpoint (portsOfSpec spec) = Inl (ErrInvalidSpec r) \<and>
           fst (Allocate rangeOrder pa endpoint spec) = Inl (ErrInvalidSpec r))) \<and>
   (\<not> (\<exists>s \<in> set (portsOfSpec spec).
        masterPortEnd < PublishedPort s \<or> masterPortEnd < TargetPort s) \<longrightarrow>
      (\<not> distinct (fixedKeys (portsOfSpec spec)) \<and>
       (\<forall>k \<in> set (fixedKeys (portsOfSpec spec)).
          k \<in> allocator_ports pa \<longrightarrow> k \<in> deallocatePorts (Endpoint_Ports endpoint) {}) \<longrightarrow>
         (\<exists>r. fst (Allocate rangeOrder pa endpoint spec) = Inl (ErrInvalidSpec r))) \<and>
      (\<exists>finals. recoverPorts endpoint (portsOfSpec spec) = Inr finals \<and>
         ((\<exists>r. fst (Allocate rangeOrder pa endpoint spec) = Inl (ErrInvalidSpec r)) \<longrightarrow>
            \<not> distinct (fixedKeys finals))))"
proof (intro conjI impI)
  assume "\<exists>s \<in> set (portsOfSpec spec).
    masterPortEnd < PublishedPort s \<or> masterPortEnd < TargetPort s"
  then obtain e where e: "recoverPorts endpoint (portsOfSpec spec) = Inl e"
    using recoverPorts_out_of_range by blast
  from recoverPorts_error [OF e] obtain r where "e = ErrInvalidSpec r"
    by blast
  with e show "\<exists>r. recoverPorts endpoint (portsOfSpec spec) = Inl (ErrInvalidSpec r) \<and>
      fst (Allocate rangeOrder pa endpoint spec) = Inl (ErrInvalidSpec r)"
    by (simp add: Allocate_def)
next
  let ?used = "allocator_ports pa" and ?D = "deallocatePorts (Endpoint_Ports endpoint) {}"
  assume "\<not> (\<exists>s \<in> set (portsOfSpec spec).
    masterPortEnd < PublishedPort s \<or> masterPortEnd < TargetPort s)"
  then obtain finals where f: "recoverPorts endpoint (portsOfSpec spec) = Inr finals"
    using recoverPorts_in_range [of "portsOfSpec spec" endpoint] by blast
  note cases = Allocate_InvalidSpec_cases [OF f, of rangeOrder pa]
  have only_if: "\<not> distinct (fixedKeys finals)"
    if "\<exists>r. fst (Allocate rangeOrder pa endpoint spec) = Inl (ErrInvalidSpec r)"
  proof -
    from that cases obtain r where "allocateFixed ?used ?D {} finals = Inl (ErrInvalidSpec r)"
      by blast
    from allocateFixed_Inl [OF this] show ?thesis
      by auto
  qed
  with f show "\<exists>finals. recoverPorts endpoint (portsOfSpec spec) = Inr finals \<and>
      ((\<exists>r. fst (Allocate rangeOrder pa endpoint spec) = Inl (ErrInvalidSpec r)) \<longrightarrow>
         \<not> distinct (fixedKeys finals))"
    by blast
  assume twice: "\<not> distinct (fixedKeys (portsOfSpec spec)) \<and>
    (\<forall>k \<in> set (fixedKeys (portsOfSpec spec)). k \<in> ?used \<longrightarrow> k \<in> ?D)"
  note keys = recoverPorts_fixedKeys [OF f]
  from keys twice have dup: "\<not> distinct (fixedKeys finals)"
    by blast
  from keys twice have "\<forall>k \<in> set (fixedKeys finals). k \<in> ?used \<longrightarrow> k \<in> ?D"
    by blast
  from allocateFixed_no_conflict [OF this, of "{}"] dup
  obtain k where "allocateFixed ?used ?D {} finals =
      Inl (ErrInvalidSpec (PublishedPortAssignedTwice k))"
    by auto
  with cases show "\<exists>r. fst (Allocate rangeOrder pa endpoint spec) = Inl (ErrInvalidSpec r)"
    by blast
qed

text \<open>
  The theorem at two specs for a new endpoint on an empty allocator: one publishes \<open>web\<close>
  on port 65536, the other publishes it twice on tcp/80.
\<close>

theorem Allocate_InvalidSpec_witness:
  "fst (Allocate noKeys \<lparr>allocator_ports = {}\<rparr> newEndpoint (specOf [webFixed 65536])) =
     Inl (ErrInvalidSpec (PublishedPortOutOfRange 65536)) \<and>
   \<not> distinct (fixedKeys [webFixed 80, webFixed 80]) \<and>
   (\<exists>r. fst (Allocate noKeys \<lparr>allocator_ports = {}\<rparr> newEndpoint
            (specOf [webFixed 80, webFixed 80])) = Inl (ErrInvalidSpec r))"
proof -
  have big: "masterPortEnd < PublishedPort (webFixed 65536)"
    and small: "\<not> masterPortEnd < PublishedPort (webFixed 80)"
      "\<not> masterPortEnd < TargetPort (webFixed 80)"
    by (simp_all add: example_defs constant_defs)
  have r1: "recoverPorts newEndpoint [webFixed 65536] =
      Inl (ErrInvalidSpec (PublishedPortOutOfRange 65536))"
    by (simp add: example_defs constant_defs)
  have k: "\<not> distinct (fixedKeys [webFixed 80, webFixed 80])"
    by (simp add: fixedKeys_def example_defs)
  from Allocate_InvalidSpec [of "specOf [webFixed 65536]" newEndpoint noKeys
      "\<lparr>allocator_ports = {}\<rparr>"] big r1
  have c1: "fst (Allocate noKeys \<lparr>allocator_ports = {}\<rparr> newEndpoint (specOf [webFixed 65536])) =
     Inl (ErrInvalidSpec (PublishedPortOutOfRange 65536))"
    by (auto simp: portsOfSpec_def specOf_def)
  from Allocate_InvalidSpec [of "specOf [webFixed 80, webFixed 80]" newEndpoint noKeys
      "\<lparr>allocator_ports = {}\<rparr>"] small k
  have c2: "\<exists>r. fst (Allocate noKeys \<lparr>allocator_ports = {}\<rparr> newEndpoint
            (specOf [webFixed 80, webFixed 80])) = Inl (ErrInvalidSpec r)"
    by (auto simp: portsOfSpec_def specOf_def)
  from c1 k c2 show ?thesis
    by simp
qed

text \<open>
  C5 as stated fails in both directions. A spec that publishes \<open>web\<close> twice on tcp/80,
  while another endpoint holds tcp/80, gets \<open>ErrResourceInUse\<close>: the loop tests the
  allocator's map first. And a spec whose ports are in range and claim no key twice gets
  \<open>ErrInvalidSpec\<close> when a port it fixes, here \<open>dns\<close> on tcp/30000, is the port that the
  first loop recovers for another of its ports.
\<close>

theorem Allocate_InvalidSpec_counterexample:
  "PublishedPort (webFixed 80) \<noteq> 0 \<and> PublishMode (webFixed 80) = PublishModeIngress \<and>
   fst (Allocate noKeys \<lparr>allocator_ports = {tcpKey 80}\<rparr> newEndpoint
          (specOf [webFixed 80, webFixed 80])) = Inl (ErrResourceInUse (tcpKey 80)) \<and>
   PublishedPort webDynamic = 0 \<and> PublishedPort (dnsFixed 30000) \<le> masterPortEnd \<and>
   TargetPort webDynamic \<le> masterPortEnd \<and> TargetPort (dnsFixed 30000) \<le> masterPortEnd \<and>
   fst (Allocate (visitOrder [tcpKey 30000]) \<lparr>allocator_ports = {tcpKey 30000}\<rparr>
          \<lparr>Endpoint_Spec = specOf [webDynamic], Endpoint_Ports = [webFixed 30000]\<rparr>
          (specOf [webDynamic, dnsFixed 30000])) =
     Inl (ErrInvalidSpec (PublishedPortAssignedTwice (tcpKey 30000)))"
  by (simp add: Allocate_def portsOfSpec_def portKey_def portsEqual_def PortsMostlyEqual_def
      example_defs constant_defs)

subsection \<open>The scan of the dynamic range\<close>

lemma dynamic_succ:
  assumes "i \<le> DynamicPortEnd"
  shows "i \<le> i + 1" and "i < m \<longleftrightarrow> i + 1 \<le> m"
proof -
  from assms have le: "unat i \<le> 32767"
    by (simp add: word_le_nat_alt DynamicPortEnd_def)
  then have "(unat i + 1) mod 2 ^ 32 = unat i + 1"
    by simp
  then have s: "unat (i + 1) = Suc (unat i)"
    by (simp add: unat_word_ariths)
  show "i \<le> i + 1"
    by (simp add: word_le_nat_alt s)
  show "i < m \<longleftrightarrow> i + 1 \<le> m"
    by (auto simp: word_le_nat_alt word_less_nat_alt s)
qed

lemma scanDynamicRange_Some:
  "scanDynamicRange used A pr i = Some j \<Longrightarrow>
     i \<le> j \<and> j \<le> DynamicPortEnd \<and>
     \<lparr>protocol = pr, port = j\<rparr> \<notin> used \<and> \<lparr>protocol = pr, port = j\<rparr> \<notin> A \<and>
     (\<forall>m. i \<le> m \<and> m < j \<longrightarrow>
        \<lparr>protocol = pr, port = m\<rparr> \<in> used \<or> \<lparr>protocol = pr, port = m\<rparr> \<in> A)"
proof (induction used A pr i rule: scanDynamicRange.induct)
  case (1 used A pr i)
  show ?case
  proof (cases "i \<le> DynamicPortEnd")
    case False
    with "1.prems" show ?thesis
      by (simp add: scanDynamicRange.simps [of used A pr i])
  next
    case True
    show ?thesis
    proof (cases "\<lparr>protocol = pr, port = i\<rparr> \<notin> used \<and> \<lparr>protocol = pr, port = i\<rparr> \<notin> A")
      case free: True
      with True "1.prems" have "j = i"
        by (simp add: scanDynamicRange.simps [of used A pr i])
      with True free show ?thesis
        by auto
    next
      case taken: False
      with True "1.prems" have next_scan: "scanDynamicRange used A pr (i + 1) = Some j"
        by (auto simp: scanDynamicRange.simps [of used A pr i] split: if_splits)
      have ih: "i + 1 \<le> j \<and> j \<le> DynamicPortEnd \<and>
          \<lparr>protocol = pr, port = j\<rparr> \<notin> used \<and> \<lparr>protocol = pr, port = j\<rparr> \<notin> A \<and>
          (\<forall>m. i + 1 \<le> m \<and> m < j \<longrightarrow>
             \<lparr>protocol = pr, port = m\<rparr> \<in> used \<or> \<lparr>protocol = pr, port = m\<rparr> \<in> A)"
      proof (cases "\<lparr>protocol = pr, port = i\<rparr> \<notin> used")
        case True
        with taken have "\<not> \<lparr>protocol = pr, port = i\<rparr> \<notin> A" by simp
        from "1.IH"(1) [OF \<open>i \<le> DynamicPortEnd\<close> True this next_scan] show ?thesis .
      next
        case False
        from "1.IH"(2) [OF \<open>i \<le> DynamicPortEnd\<close> False next_scan] show ?thesis .
      qed
      have "i \<le> j"
        using ih dynamic_succ(1) [OF True] by (blast intro: order_trans)
      moreover have "\<lparr>protocol = pr, port = m\<rparr> \<in> used \<or> \<lparr>protocol = pr, port = m\<rparr> \<in> A"
        if "i \<le> m \<and> m < j" for m
      proof (cases "m = i")
        case True
        with taken show ?thesis by simp
      next
        case False
        with that have "i < m" by auto
        then have "i + 1 \<le> m"
          using dynamic_succ(2) [OF True] by simp
        with that ih show ?thesis by simp
      qed
      ultimately show ?thesis
        using ih by simp
    qed
  qed
qed

lemma scanDynamicRange_None:
  "scanDynamicRange used A pr i = None \<Longrightarrow> i \<le> m \<Longrightarrow> m \<le> DynamicPortEnd \<Longrightarrow>
     \<lparr>protocol = pr, port = m\<rparr> \<in> used \<or> \<lparr>protocol = pr, port = m\<rparr> \<in> A"
proof (induction used A pr i rule: scanDynamicRange.induct)
  case (1 used A pr i)
  from "1.prems" have le: "i \<le> DynamicPortEnd"
    by simp
  show ?case
  proof (cases "\<lparr>protocol = pr, port = i\<rparr> \<notin> used \<and> \<lparr>protocol = pr, port = i\<rparr> \<notin> A")
    case True
    with le "1.prems"(1) show ?thesis
      by (simp add: scanDynamicRange.simps [of used A pr i])
  next
    case taken: False
    with le "1.prems"(1) have next_scan: "scanDynamicRange used A pr (i + 1) = None"
      by (auto simp: scanDynamicRange.simps [of used A pr i] split: if_splits)
    show ?thesis
    proof (cases "m = i")
      case True
      with taken show ?thesis by simp
    next
      case False
      with "1.prems"(2) have "i < m" by auto
      then have m: "i + 1 \<le> m"
        using dynamic_succ(2) [OF le] by simp
      show ?thesis
      proof (cases "\<lparr>protocol = pr, port = i\<rparr> \<notin> used")
        case True
        with taken have "\<not> \<lparr>protocol = pr, port = i\<rparr> \<notin> A" by simp
        from "1.IH"(1) [OF le True this next_scan m "1.prems"(3)] show ?thesis .
      next
        case False
        from "1.IH"(2) [OF le False next_scan m "1.prems"(3)] show ?thesis .
      qed
    qed
  qed
qed

text \<open>
  The scan returns the first free port of the range, if there is one.
\<close>

lemma scanDynamicRange_first:
  assumes "DynamicPortStart \<le> i" and "i \<le> DynamicPortEnd"
    and "\<lparr>protocol = pr, port = i\<rparr> \<notin> used" and "\<lparr>protocol = pr, port = i\<rparr> \<notin> A"
    and "\<forall>j. DynamicPortStart \<le> j \<and> j < i \<longrightarrow>
           \<lparr>protocol = pr, port = j\<rparr> \<in> used \<or> \<lparr>protocol = pr, port = j\<rparr> \<in> A"
  shows "scanDynamicRange used A pr DynamicPortStart = Some i"
proof (cases "scanDynamicRange used A pr DynamicPortStart")
  case None
  from scanDynamicRange_None [OF None assms(1,2)] assms(3,4) show ?thesis
    by simp
next
  case (Some j)
  note j = scanDynamicRange_Some [OF Some]
  have "\<not> j < i"
    using assms(5) j by blast
  moreover have "\<not> i < j"
    using j assms(1,3,4) by blast
  ultimately have "j = i"
    by auto
  with Some show ?thesis
    by simp
qed

lemma scanDynamicRange_exhausted:
  "(\<forall>i. DynamicPortStart \<le> i \<and> i \<le> DynamicPortEnd \<longrightarrow>
      \<lparr>protocol = pr, port = i\<rparr> \<in> used \<or> \<lparr>protocol = pr, port = i\<rparr> \<in> A) \<Longrightarrow>
   scanDynamicRange used A pr DynamicPortStart = None"
proof (cases "scanDynamicRange used A pr DynamicPortStart")
  case None
  then show ?thesis by simp
next
  case (Some j)
  assume all: "\<forall>i. DynamicPortStart \<le> i \<and> i \<le> DynamicPortEnd \<longrightarrow>
      \<lparr>protocol = pr, port = i\<rparr> \<in> used \<or> \<lparr>protocol = pr, port = i\<rparr> \<in> A"
  from scanDynamicRange_Some [OF Some] all show ?thesis
    by blast
qed

subsection \<open>The second allocation loop: ports without a published port\<close>

lemma reuseDeallocated_Some:
  "reuseDeallocated keys A pr = Some d \<Longrightarrow>
     d \<in> set keys \<and> protocol d = pr \<and> DynamicPortStart \<le> port d \<and>
     port d \<le> DynamicPortEnd \<and> d \<notin> A \<and> \<lparr>protocol = pr, port = port d\<rparr> = d"
  by (auto simp: reuseDeallocated_def find_Some_iff)

lemma reuseDeallocated_None:
  "reuseDeallocated keys A pr = None \<longleftrightarrow>
     \<not> (\<exists>d \<in> set keys. protocol d = pr \<and> DynamicPortStart \<le> port d \<and>
           port d \<le> DynamicPortEnd \<and> d \<notin> A)"
  by (auto simp: reuseDeallocated_def find_None_iff)

lemma allocateDynamic_append:
  "allocateDynamic rangeOrder used D A k (xs @ ys) =
     (case allocateDynamic rangeOrder used D A k xs of
        Inl e \<Rightarrow> Inl e
      | Inr (xs', A') \<Rightarrow>
          (case allocateDynamic rangeOrder used D A' (k + length xs) ys of
             Inl e \<Rightarrow> Inl e
           | Inr (ys', A'') \<Rightarrow> Inr (xs' @ ys', A'')))"
proof (induction xs arbitrary: A k)
  case Nil
  show ?case
    by (simp split: sum.splits prod.splits)
next
  case (Cons p xs)
  show ?case
    by (simp add: Cons.IH split: sum.splits prod.splits option.splits)
qed

lemma allocateDynamic_length:
  "allocateDynamic rangeOrder used D A k ps = Inr (ps', A') \<Longrightarrow> length ps' = length ps"
proof (induction ps arbitrary: A k ps')
  case Nil
  then show ?case by simp
next
  case (Cons p ps)
  from Cons.prems show ?case
    by (auto split: if_splits sum.splits option.splits prod.splits dest: Cons.IH)
qed

text \<open>The port that the loop writes into a port without a published port is in the range.\<close>

lemma allocateDynamic_in_range:
  "allocateDynamic rangeOrder used D A k ps = Inr (ps', A') \<Longrightarrow> i < length ps \<Longrightarrow>
   PublishedPort (ps ! i) = 0 \<Longrightarrow> PublishMode (ps ! i) = PublishModeIngress \<Longrightarrow>
     DynamicPortStart \<le> PublishedPort (ps' ! i) \<and> PublishedPort (ps' ! i) \<le> DynamicPortEnd"
proof (induction ps arbitrary: A k ps' i)
  case Nil
  then show ?case by simp
next
  case (Cons p ps)
  show ?case
  proof (cases i)
    case (Suc j)
    from Cons.prems(1) obtain q qs B l where
      ps': "ps' = q # qs" and rest: "allocateDynamic rangeOrder used D B l ps = Inr (qs, A')"
      by (auto split: if_splits sum.splits option.splits prod.splits)
    from Cons.IH [OF rest, of j] Cons.prems(2-4) Suc ps' show ?thesis
      by simp
  next
    case 0
    with Cons.prems(3,4) have dyn: "PublishedPort p = 0" "PublishMode p = PublishModeIngress"
      by simp_all
    show ?thesis
    proof (cases "scanDynamicRange used A (Protocol p) DynamicPortStart")
      case (Some n)
      with Cons.prems(1) dyn obtain qs where "ps' = p\<lparr>PublishedPort := n\<rparr> # qs"
        by (auto split: sum.splits prod.splits)
      with scanDynamicRange_Some [OF Some] 0 show ?thesis
        by simp
    next
      case None
      with Cons.prems(1) dyn obtain d qs where
        d: "reuseDeallocated (rangeOrder k D) A (Protocol p) = Some d"
        and "ps' = p\<lparr>PublishedPort := port d\<rparr> # qs"
        by (auto split: sum.splits prod.splits option.splits)
      with reuseDeallocated_Some [OF d] 0 show ?thesis
        by simp
    qed
  qed
qed

text \<open>One turn of the loop, at a port without a published port.\<close>

lemma allocateDynamic_turn:
  assumes "PublishedPort p = 0" and "PublishMode p = PublishModeIngress"
  shows "allocateDynamic rangeOrder used D A k [p] =
    (case scanDynamicRange used A (Protocol p) DynamicPortStart of
       Some i \<Rightarrow> Inr ([p\<lparr>PublishedPort := i\<rparr>], insert \<lparr>protocol = Protocol p, port = i\<rparr> A)
     | None \<Rightarrow>
         (case reuseDeallocated (rangeOrder k D) A (Protocol p) of
            Some d \<Rightarrow> Inr ([p\<lparr>PublishedPort := port d\<rparr>],
              insert \<lparr>protocol = Protocol p, port = port d\<rparr> A)
          | None \<Rightarrow> Inl (ErrResourceExhausted (Protocol p))))"
  using assms by (simp split: option.splits)

lemma recoverPorts_shape:
  assumes "recoverPorts endpoint specs = Inr finals" and "i < length specs"
  shows "\<exists>n. finals ! i = (specs ! i)\<lparr>PublishedPort := n\<rparr> \<and>
    (PublishMode (specs ! i) = PublishModeHost \<or> PublishedPort (specs ! i) \<noteq> 0 \<longrightarrow>
       n = PublishedPort (specs ! i))"
proof (cases "PublishMode (specs ! i) = PublishModeHost \<or> PublishedPort (specs ! i) \<noteq> 0")
  case True
  from recoverPorts_nth_fixed [OF assms True]
  have "finals ! i = (specs ! i)\<lparr>PublishedPort := PublishedPort (specs ! i)\<rparr>"
    by simp
  then show ?thesis
    by blast
next
  case False
  then have dyn: "PublishMode (specs ! i) = PublishModeIngress" "PublishedPort (specs ! i) = 0"
    by (simp_all add: not_host_iff)
  from recoverPorts_nth_dynamic [OF assms dyn]
  have "finals ! i = specs ! i \<or> (\<exists>n. finals ! i = (specs ! i)\<lparr>PublishedPort := n\<rparr>)"
    by (auto simp: recoverFromOld_eq takeAssigned_eq split: option.splits if_splits)
  then have "\<exists>n. finals ! i = (specs ! i)\<lparr>PublishedPort := n\<rparr>"
  proof
    assume "finals ! i = specs ! i"
    then have "finals ! i = (specs ! i)\<lparr>PublishedPort := PublishedPort (specs ! i)\<rparr>"
      by simp
    then show ?thesis
      by blast
  qed
  with False show ?thesis
    by simp
qed

lemma dynamic_port_nonzero: "DynamicPortStart \<le> n \<Longrightarrow> n \<noteq> 0"
  by (auto simp: DynamicPortStart_def)

text \<open>
  What the second allocation loop does to the list: a port without a published port gets
  one from the range, every other port stays as it is.
\<close>

lemma allocateDynamic_shape:
  "allocateDynamic rangeOrder used D A k ps = Inr (ps', A') \<Longrightarrow> i < length ps \<Longrightarrow>
   \<exists>n. ps' ! i = (ps ! i)\<lparr>PublishedPort := n\<rparr> \<and>
     (PublishedPort (ps ! i) \<noteq> 0 \<or> PublishMode (ps ! i) = PublishModeHost \<longrightarrow>
        n = PublishedPort (ps ! i)) \<and>
     (PublishedPort (ps ! i) = 0 \<and> PublishMode (ps ! i) = PublishModeIngress \<longrightarrow> n \<noteq> 0)"
proof (induction ps arbitrary: A k ps' i)
  case Nil
  then show ?case by simp
next
  case (Cons p ps)
  from Cons.prems(1) obtain q qs B l where
    ps': "ps' = q # qs" and rest: "allocateDynamic rangeOrder used D B l ps = Inr (qs, A')"
    by (auto split: if_splits sum.splits option.splits prod.splits)
  show ?case
  proof (cases i)
    case (Suc j)
    from Cons.IH [OF rest, of j] Cons.prems(2) Suc ps' show ?thesis
      by simp
  next
    case 0
    show ?thesis
    proof (cases "PublishedPort p \<noteq> 0 \<or> PublishMode p = PublishModeHost")
      case True
      with Cons.prems(1) ps' have "q = p\<lparr>PublishedPort := PublishedPort p\<rparr>"
        by (auto split: sum.splits prod.splits)
      then have "ps' ! 0 = ((p # ps) ! 0)\<lparr>PublishedPort := PublishedPort ((p # ps) ! 0)\<rparr>"
        using ps' by simp
      with True 0 show ?thesis
        by auto
    next
      case False
      then have dyn: "PublishedPort p = 0" "PublishMode p = PublishModeIngress"
        by (simp_all add: not_host_iff)
      from allocateDynamic_in_range [OF Cons.prems(1), of 0] dyn ps'
      have r: "DynamicPortStart \<le> PublishedPort q"
        by simp
      from Cons.prems(1) dyn ps' have "\<exists>n. q = p\<lparr>PublishedPort := n\<rparr>"
        by (auto split: sum.splits prod.splits option.splits)
      then obtain n where n: "q = p\<lparr>PublishedPort := n\<rparr>"
        by blast
      with r have "n \<noteq> 0"
        by (simp add: dynamic_port_nonzero)
      with n dyn 0 ps' show ?thesis
        by auto
    qed
  qed
qed

text \<open>
  The keys of the list that the second allocation loop returns: when it starts with the
  keys of the list in \<open>allocate\<close>, once each, it ends with the keys of the new list in
  \<open>allocate\<close>, once each.
\<close>

lemma allocateDynamic_keys:
  "allocateDynamic rangeOrder used D A k ps = Inr (ps', A') \<Longrightarrow>
   set (fixedKeys ps) \<subseteq> A \<Longrightarrow> distinct (fixedKeys ps) \<Longrightarrow>
     distinct (fixedKeys ps') \<and> A' = A \<union> set (fixedKeys ps') \<and>
     set (fixedKeys ps) \<subseteq> set (fixedKeys ps') \<and>
     (\<forall>x \<in> set (fixedKeys ps'). x \<in> A \<longrightarrow> x \<in> set (fixedKeys ps))"
proof (induction ps arbitrary: A k ps')
  case Nil
  then show ?case by (auto simp: fixedKeys_simps)
next
  case (Cons p ps)
  show ?case
  proof (cases "PublishedPort p \<noteq> 0 \<or> PublishMode p = PublishModeHost")
    case True
    with Cons.prems(1) obtain qs where ps': "ps' = p # qs"
      and rest: "allocateDynamic rangeOrder used D A (Suc k) ps = Inr (qs, A')"
      by (auto split: sum.splits prod.splits)
    from Cons.prems(2,3) have "set (fixedKeys ps) \<subseteq> A" "distinct (fixedKeys ps)"
      by (auto simp: fixedKeys_simps split: if_splits)
    note ih = Cons.IH [OF rest this]
    show ?thesis
    proof (cases "PublishedPort p = 0 \<or> PublishMode p = PublishModeHost")
      case skip: True
      with ih ps' show ?thesis
        by (simp add: fixedKeys_simps)
    next
      case False
      with Cons.prems(2,3) have "portKey p \<in> A" "portKey p \<notin> set (fixedKeys ps)"
        by (simp_all add: fixedKeys_simps)
      with ih ps' False show ?thesis
        by (auto simp: fixedKeys_simps)
    qed
  next
    case False
    then have dyn: "PublishedPort p = 0" "PublishMode p = PublishModeIngress"
      by (simp_all add: not_host_iff)
    have "\<exists>n qs. ps' = p\<lparr>PublishedPort := n\<rparr> # qs \<and>
        allocateDynamic rangeOrder used D (insert \<lparr>protocol = Protocol p, port = n\<rparr> A)
          (Suc k) ps = Inr (qs, A') \<and>
        \<lparr>protocol = Protocol p, port = n\<rparr> \<notin> A \<and> DynamicPortStart \<le> n"
    proof (cases "scanDynamicRange used A (Protocol p) DynamicPortStart")
      case (Some n)
      with Cons.prems(1) dyn obtain qs where "ps' = p\<lparr>PublishedPort := n\<rparr> # qs"
        "allocateDynamic rangeOrder used D (insert \<lparr>protocol = Protocol p, port = n\<rparr> A)
          (Suc k) ps = Inr (qs, A')"
        by (auto split: sum.splits prod.splits)
      with scanDynamicRange_Some [OF Some] show ?thesis
        by blast
    next
      case None
      with Cons.prems(1) dyn obtain d qs where
        d: "reuseDeallocated (rangeOrder k D) A (Protocol p) = Some d"
        and "ps' = p\<lparr>PublishedPort := port d\<rparr> # qs"
        "allocateDynamic rangeOrder used D
          (insert \<lparr>protocol = Protocol p, port = port d\<rparr> A) (Suc k) ps = Inr (qs, A')"
        by (auto split: sum.splits prod.splits option.splits)
      moreover from reuseDeallocated_Some [OF d]
      have "\<lparr>protocol = Protocol p, port = port d\<rparr> \<notin> A" "DynamicPortStart \<le> port d"
        by simp_all
      ultimately show ?thesis
        by blast
    qed
    then obtain n qs where ps': "ps' = p\<lparr>PublishedPort := n\<rparr> # qs"
      and rest: "allocateDynamic rangeOrder used D (insert \<lparr>protocol = Protocol p, port = n\<rparr> A)
        (Suc k) ps = Inr (qs, A')"
      and fresh: "\<lparr>protocol = Protocol p, port = n\<rparr> \<notin> A" and start: "DynamicPortStart \<le> n"
      by blast
    from start have n: "n \<noteq> 0"
      by (rule dynamic_port_nonzero)
    from Cons.prems(2,3) dyn
    have "set (fixedKeys ps) \<subseteq> insert \<lparr>protocol = Protocol p, port = n\<rparr> A"
      "distinct (fixedKeys ps)"
      by (auto simp: fixedKeys_simps)
    note ih = Cons.IH [OF rest this]
    have keys: "fixedKeys ps' = \<lparr>protocol = Protocol p, port = n\<rparr> # fixedKeys qs"
      "fixedKeys (p # ps) = fixedKeys ps"
      using ps' dyn n by (simp_all add: fixedKeys_simps portKey_def)
    have "\<lparr>protocol = Protocol p, port = n\<rparr> \<notin> set (fixedKeys qs)"
    proof
      assume a: "\<lparr>protocol = Protocol p, port = n\<rparr> \<in> set (fixedKeys qs)"
      with ih have "\<lparr>protocol = Protocol p, port = n\<rparr> \<in> set (fixedKeys ps)"
        by blast
      with Cons.prems(2) dyn fresh show False
        by (auto simp: fixedKeys_simps)
    qed
    with ih keys fresh show ?thesis
      by auto
  qed
qed

text \<open>The result ports of a proposal that \<open>Allocate\<close> returns.\<close>

lemma Allocate_result:
  assumes "fst (Allocate rangeOrder pa endpoint spec) = Inr q"
  shows "length (Ports q) = length (portsOfSpec spec)"
    and "\<forall>i < length (portsOfSpec spec).
      \<exists>n. Ports q ! i = (portsOfSpec spec ! i)\<lparr>PublishedPort := n\<rparr> \<and>
        (PublishMode (portsOfSpec spec ! i) = PublishModeHost \<or>
         PublishedPort (portsOfSpec spec ! i) \<noteq> 0 \<longrightarrow>
           n = PublishedPort (portsOfSpec spec ! i)) \<and>
        (PublishMode (portsOfSpec spec ! i) = PublishModeIngress \<longrightarrow> n \<noteq> 0)"
    and "distinct (fixedKeys (Ports q))" and "allocate q = set (fixedKeys (Ports q))"
    and "\<forall>s \<in> set (portsOfSpec spec).
      \<not> (masterPortEnd < PublishedPort s \<or> masterPortEnd < TargetPort s)"
proof -
  let ?used = "allocator_ports pa" and ?D = "deallocatePorts (Endpoint_Ports endpoint) {}"
  let ?specs = "portsOfSpec spec"
  from assms obtain finals A0 where
    r: "recoverPorts endpoint ?specs = Inr finals" and
    f: "allocateFixed ?used ?D {} finals = Inr A0" and
    d: "allocateDynamic rangeOrder ?used ?D A0 0 finals = Inr (Ports q, allocate q)"
    by (auto simp: Allocate_def Let_def Ports_def split: sum.splits prod.splits)
  have flen: "length finals = length ?specs"
    by (rule recoverPorts_length [OF r])
  show "length (Ports q) = length ?specs"
    using allocateDynamic_length [OF d] flen by simp
  show "\<forall>s \<in> set ?specs. \<not> (masterPortEnd < PublishedPort s \<or> masterPortEnd < TargetPort s)"
    using recoverPorts_Inr_in_range [OF r] by blast
  from allocateFixed_Inr [OF f] have A0: "A0 = set (fixedKeys finals)"
    and dist: "distinct (fixedKeys finals)"
    by simp_all
  from allocateDynamic_keys [OF d] A0 dist
  show "distinct (fixedKeys (Ports q))" and "allocate q = set (fixedKeys (Ports q))"
    by auto
  show "\<forall>i < length ?specs.
      \<exists>n. Ports q ! i = (?specs ! i)\<lparr>PublishedPort := n\<rparr> \<and>
        (PublishMode (?specs ! i) = PublishModeHost \<or> PublishedPort (?specs ! i) \<noteq> 0 \<longrightarrow>
           n = PublishedPort (?specs ! i)) \<and>
        (PublishMode (?specs ! i) = PublishModeIngress \<longrightarrow> n \<noteq> 0)"
  proof (intro allI impI)
    fix i
    assume i: "i < length ?specs"
    from recoverPorts_shape [OF r i] obtain m where
      m: "finals ! i = (?specs ! i)\<lparr>PublishedPort := m\<rparr>"
      "PublishMode (?specs ! i) = PublishModeHost \<or> PublishedPort (?specs ! i) \<noteq> 0 \<longrightarrow>
         m = PublishedPort (?specs ! i)"
      by blast
    from i flen have "i < length finals"
      by simp
    from allocateDynamic_shape [OF d this] obtain n where
      n: "Ports q ! i = (finals ! i)\<lparr>PublishedPort := n\<rparr>"
      "PublishedPort (finals ! i) \<noteq> 0 \<or> PublishMode (finals ! i) = PublishModeHost \<longrightarrow>
         n = PublishedPort (finals ! i)"
      "PublishedPort (finals ! i) = 0 \<and> PublishMode (finals ! i) = PublishModeIngress \<longrightarrow> n \<noteq> 0"
      by blast
    have "Ports q ! i = (?specs ! i)\<lparr>PublishedPort := n\<rparr>"
      using m(1) n(1) by simp
    moreover have "n = PublishedPort (?specs ! i)"
      if "PublishMode (?specs ! i) = PublishModeHost \<or> PublishedPort (?specs ! i) \<noteq> 0"
      using that m n(2) by auto
    moreover have "n \<noteq> 0" if "PublishMode (?specs ! i) = PublishModeIngress"
      using that m n(2,3) by (cases "m = 0") auto
    ultimately show "\<exists>n. Ports q ! i = (?specs ! i)\<lparr>PublishedPort := n\<rparr> \<and>
        (PublishMode (?specs ! i) = PublishModeHost \<or> PublishedPort (?specs ! i) \<noteq> 0 \<longrightarrow>
           n = PublishedPort (?specs ! i)) \<and>
        (PublishMode (?specs ! i) = PublishModeIngress \<longrightarrow> n \<noteq> 0)"
      by blast
  qed
qed

text \<open>
  The call after one turn of the second allocation loop: when the loop has reached a port
  and its turn there has written a port into it, the call returns what the rest of the loop
  returns from there.
\<close>

lemma Allocate_after_turn:
  assumes r: "recoverPorts endpoint (portsOfSpec spec) = Inr (pre @ p # rest)"
    and u: "used = allocator_ports pa" and D: "D = deallocatePorts (Endpoint_Ports endpoint) {}"
    and f: "allocateFixed used D {} (pre @ p # rest) = Inr A0"
    and before: "allocateDynamic rangeOrder used D A0 0 pre = Inr (pre', A)"
    and turn: "allocateDynamic rangeOrder used D A (length pre) [p] = Inr ([p'], A1)"
  shows "allocateDynamic rangeOrder used D A0 0 (pre @ [p]) = Inr (pre' @ [p'], A1)"
    and "fst (Allocate rangeOrder pa endpoint spec) =
      (case allocateDynamic rangeOrder used D A1 (Suc (length pre)) rest of
         Inl e \<Rightarrow> Inl e
       | Inr (rest', A2) \<Rightarrow>
           Inr \<lparr>proposal_ports = Some (pre' @ p' # rest'), allocate = A2, deallocate = D\<rparr>)"
    and "\<forall>r \<in> set rest. PublishedPort r \<noteq> 0 \<or> PublishMode r = PublishModeHost \<Longrightarrow>
      fst (Allocate rangeOrder pa endpoint spec) =
        Inr \<lparr>proposal_ports = Some (pre' @ p' # rest), allocate = A1, deallocate = D\<rparr>"
    and "fst (Allocate rangeOrder pa endpoint spec) = Inr q \<Longrightarrow>
      Ports q ! length pre = p' \<and> A1 \<subseteq> allocate q"
proof -
  let ?call = "fst (Allocate rangeOrder pa endpoint spec)"
  show one: "allocateDynamic rangeOrder used D A0 0 (pre @ [p]) = Inr (pre' @ [p'], A1)"
    using before turn by (simp add: allocateDynamic_append del: allocateDynamic.simps)
  have "allocateDynamic rangeOrder used D A0 0 ((pre @ [p]) @ rest) =
      (case allocateDynamic rangeOrder used D A1 (Suc (length pre)) rest of
         Inl e \<Rightarrow> Inl e
       | Inr (rest', A2) \<Rightarrow> Inr ((pre' @ [p']) @ rest', A2))"
    by (simp only: allocateDynamic_append [of _ _ _ _ _ "pre @ [p]"] one) simp
  then have whole: "allocateDynamic rangeOrder used D A0 0 (pre @ p # rest) =
      (case allocateDynamic rangeOrder used D A1 (Suc (length pre)) rest of
         Inl e \<Rightarrow> Inl e
       | Inr (rest', A2) \<Rightarrow> Inr (pre' @ p' # rest', A2))"
    by (simp split: sum.splits prod.splits)
  show call: "?call =
      (case allocateDynamic rangeOrder used D A1 (Suc (length pre)) rest of
         Inl e \<Rightarrow> Inl e
       | Inr (rest', A2) \<Rightarrow>
           Inr \<lparr>proposal_ports = Some (pre' @ p' # rest'), allocate = A2, deallocate = D\<rparr>)"
    using r u D f whole
    by (simp add: Allocate_def Let_def split: sum.splits prod.splits)
  show "?call = Inr \<lparr>proposal_ports = Some (pre' @ p' # rest), allocate = A1, deallocate = D\<rparr>"
    if "\<forall>r \<in> set rest. PublishedPort r \<noteq> 0 \<or> PublishMode r = PublishModeHost"
    unfolding call using allocateDynamic_none [OF that] by simp
  show "Ports q ! length pre = p' \<and> A1 \<subseteq> allocate q" if "?call = Inr q"
  proof -
    from that obtain rest' where
      rest: "allocateDynamic rangeOrder used D A1 (Suc (length pre)) rest = Inr (rest', allocate q)"
      and ports: "Ports q = pre' @ p' # rest'"
      unfolding call by (auto simp: Ports_def split: sum.splits prod.splits)
    have "length pre' = length pre"
      by (rule allocateDynamic_length [OF before])
    with ports have "Ports q ! length pre = p'"
      by (simp add: nth_append)
    with allocateDynamic_mono [OF rest] show ?thesis
      by simp
  qed
qed

lemma fixedKeys_member:
  "p \<in> set ps \<Longrightarrow> PublishedPort p \<noteq> 0 \<Longrightarrow> PublishMode p = PublishModeIngress \<Longrightarrow>
     portKey p \<in> set (fixedKeys ps)"
  by (auto simp: fixedKeys_def)

text \<open>
  C2. Let the first loop of \<open>Allocate\<close> return the result ports, and let \<open>p\<close> be one of
  them, with ingress mode and published port 0. Let the second allocation loop reach
  \<open>p\<close>, with \<open>A\<close> as the map \<open>allocate\<close> and \<open>pre'\<close> as the ports before \<open>p\<close>, and
  let its fallback loop visit the keys of the map \<open>deallocate\<close>, in any order.

  \<^item> If \<open>i\<close> is the first port of the range 30000 to 32767 whose key, with the protocol of
    \<open>p\<close>, is neither in the allocator's map nor in \<open>allocate\<close>, the loop writes \<open>i\<close>
    into \<open>p\<close> and adds the key to \<open>allocate\<close>. The call returns what the rest of the loop
    returns from there: a proposal that it returns has \<open>p\<close> with the port \<open>i\<close> at the
    place of \<open>p\<close> and holds the key in \<open>allocate\<close>, and where no later port lacks a
    published port the call returns that proposal.
  \<^item> If every key of the range is in one of the two maps, and \<open>deallocate\<close> holds a key
    of the protocol of \<open>p\<close>, with its port in the range, that is not in \<open>allocate\<close>, the
    loop writes the port of such a key into \<open>p\<close> and adds the key to \<open>allocate\<close>, and
    the call goes on in the same way.
  \<^item> If there is no such key either, the call fails with \<open>ErrResourceExhausted\<close>.

  And whenever the call returns a proposal, its result port at the place of \<open>p\<close> is \<open>p\<close>
  with a published port in the range 30000 to 32767, and the key of that port is in the
  proposal's map \<open>allocate\<close>.
\<close>

theorem allocateDynamic_port:
  assumes "used = allocator_ports pa" and "D = deallocatePorts (Endpoint_Ports endpoint) {}"
    and "recoverPorts endpoint (portsOfSpec spec) = Inr (pre @ p # rest)"
    and "PublishedPort p = 0" and "PublishMode p = PublishModeIngress"
  shows
    "(allocateFixed used D {} (pre @ p # rest) = Inr A0 \<and>
      allocateDynamic rangeOrder used D A0 0 pre = Inr (pre', A) \<and>
      set (rangeOrder (length pre) D) = D \<longrightarrow>
        (\<forall>i. DynamicPortStart \<le> i \<and> i \<le> DynamicPortEnd \<and>
              \<lparr>protocol = Protocol p, port = i\<rparr> \<notin> used \<and>
              \<lparr>protocol = Protocol p, port = i\<rparr> \<notin> A \<and>
              (\<forall>j. DynamicPortStart \<le> j \<and> j < i \<longrightarrow>
                 \<lparr>protocol = Protocol p, port = j\<rparr> \<in> used \<or>
                 \<lparr>protocol = Protocol p, port = j\<rparr> \<in> A) \<longrightarrow>
            allocateDynamic rangeOrder used D A0 0 (pre @ [p]) =
              Inr (pre' @ [p\<lparr>PublishedPort := i\<rparr>],
                   insert \<lparr>protocol = Protocol p, port = i\<rparr> A) \<and>
            fst (Allocate rangeOrder pa endpoint spec) =
              (case allocateDynamic rangeOrder used D
                      (insert \<lparr>protocol = Protocol p, port = i\<rparr> A) (Suc (length pre)) rest of
                 Inl e \<Rightarrow> Inl e
               | Inr (rest', A2) \<Rightarrow>
                   Inr \<lparr>proposal_ports = Some (pre' @ p\<lparr>PublishedPort := i\<rparr> # rest'),
                        allocate = A2, deallocate = D\<rparr>) \<and>
            ((\<forall>r \<in> set rest. PublishedPort r \<noteq> 0 \<or> PublishMode r = PublishModeHost) \<longrightarrow>
               fst (Allocate rangeOrder pa endpoint spec) =
                 Inr \<lparr>proposal_ports = Some (pre' @ p\<lparr>PublishedPort := i\<rparr> # rest),
                      allocate = insert \<lparr>protocol = Protocol p, port = i\<rparr> A,
                      deallocate = D\<rparr>) \<and>
            (\<forall>q. fst (Allocate rangeOrder pa endpoint spec) = Inr q \<longrightarrow>
               Ports q ! length pre = p\<lparr>PublishedPort := i\<rparr> \<and>
               \<lparr>protocol = Protocol p, port = i\<rparr> \<in> allocate q)) \<and>
        ((\<forall>i. DynamicPortStart \<le> i \<and> i \<le> DynamicPortEnd \<longrightarrow>
              \<lparr>protocol = Protocol p, port = i\<rparr> \<in> used \<or>
              \<lparr>protocol = Protocol p, port = i\<rparr> \<in> A) \<longrightarrow>
           (if \<exists>d \<in> D. protocol d = Protocol p \<and> DynamicPortStart \<le> port d \<and>
                 port d \<le> DynamicPortEnd \<and> d \<notin> A
            then \<exists>d \<in> D. protocol d = Protocol p \<and> DynamicPortStart \<le> port d \<and>
                   port d \<le> DynamicPortEnd \<and> d \<notin> A \<and>
                   allocateDynamic rangeOrder used D A0 0 (pre @ [p]) =
                     Inr (pre' @ [p\<lparr>PublishedPort := port d\<rparr>], insert d A) \<and>
                   fst (Allocate rangeOrder pa endpoint spec) =
                     (case allocateDynamic rangeOrder used D (insert d A) (Suc (length pre))
                             rest of
                        Inl e \<Rightarrow> Inl e
                      | Inr (rest', A2) \<Rightarrow>
                          Inr \<lparr>proposal_ports =
                                 Some (pre' @ p\<lparr>PublishedPort := port d\<rparr> # rest'),
                               allocate = A2, deallocate = D\<rparr>) \<and>
                   ((\<forall>r \<in> set rest.
                        PublishedPort r \<noteq> 0 \<or> PublishMode r = PublishModeHost) \<longrightarrow>
                      fst (Allocate rangeOrder pa endpoint spec) =
                        Inr \<lparr>proposal_ports = Some (pre' @ p\<lparr>PublishedPort := port d\<rparr> # rest),
                             allocate = insert d A, deallocate = D\<rparr>) \<and>
                   (\<forall>q. fst (Allocate rangeOrder pa endpoint spec) = Inr q \<longrightarrow>
                      Ports q ! length pre = p\<lparr>PublishedPort := port d\<rparr> \<and>
                      d \<in> allocate q)
            else fst (Allocate rangeOrder pa endpoint spec) =
                   Inl (ErrResourceExhausted (Protocol p))))) \<and>
     (\<forall>q. fst (Allocate rangeOrder pa endpoint spec) = Inr q \<longrightarrow>
        length (Ports q) = length (pre @ p # rest) \<and>
        Ports q ! length pre = p\<lparr>PublishedPort := PublishedPort (Ports q ! length pre)\<rparr> \<and>
        DynamicPortStart \<le> PublishedPort (Ports q ! length pre) \<and>
        PublishedPort (Ports q ! length pre) \<le> DynamicPortEnd \<and>
        \<lparr>protocol = Protocol p, port = PublishedPort (Ports q ! length pre)\<rparr> \<in> allocate q)"
proof (intro conjI impI allI)
  fix q
  assume "fst (Allocate rangeOrder pa endpoint spec) = Inr q"
  then obtain A1 where
    f: "allocateFixed used D {} (pre @ p # rest) = Inr A1" and
    d: "allocateDynamic rangeOrder used D A1 0 (pre @ p # rest) = Inr (Ports q, allocate q)"
    using assms(1-3)
    by (auto simp: Allocate_def Let_def Ports_def split: sum.splits prod.splits)
  show len: "length (Ports q) = length (pre @ p # rest)"
    by (rule allocateDynamic_length [OF d])
  have at: "length pre < length (pre @ p # rest)" "(pre @ p # rest) ! length pre = p"
    by simp_all
  from allocateDynamic_in_range [OF d, of "length pre"] at assms(4,5)
  show range: "DynamicPortStart \<le> PublishedPort (Ports q ! length pre)"
    and "PublishedPort (Ports q ! length pre) \<le> DynamicPortEnd"
    by simp_all
  from allocateDynamic_shape [OF d at(1)] at(2)
  obtain n where n: "Ports q ! length pre = p\<lparr>PublishedPort := n\<rparr>"
    by auto
  then show same: "Ports q ! length pre =
      p\<lparr>PublishedPort := PublishedPort (Ports q ! length pre)\<rparr>"
    by simp
  from allocateFixed_Inr [OF f] have "A1 = set (fixedKeys (pre @ p # rest))"
    "distinct (fixedKeys (pre @ p # rest))"
    by simp_all
  with allocateDynamic_keys [OF d] have keys: "set (fixedKeys (Ports q)) \<subseteq> allocate q"
    by auto
  have "Ports q ! length pre \<in> set (Ports q)"
    using len by (simp add: nth_mem)
  moreover have "PublishedPort (Ports q ! length pre) \<noteq> 0"
    using range by (rule dynamic_port_nonzero)
  moreover have "PublishMode (Ports q ! length pre) = PublishModeIngress"
    using n assms(5) by simp
  ultimately have "portKey (Ports q ! length pre) \<in> set (fixedKeys (Ports q))"
    by (rule fixedKeys_member)
  moreover have "portKey (Ports q ! length pre) =
      \<lparr>protocol = Protocol p, port = PublishedPort (Ports q ! length pre)\<rparr>"
    using n by (simp add: portKey_def)
  ultimately show "\<lparr>protocol = Protocol p, port = PublishedPort (Ports q ! length pre)\<rparr>
      \<in> allocate q"
    using keys by auto
next
  fix i
  assume reach: "allocateFixed used D {} (pre @ p # rest) = Inr A0 \<and>
      allocateDynamic rangeOrder used D A0 0 pre = Inr (pre', A) \<and>
      set (rangeOrder (length pre) D) = D"
    and first: "DynamicPortStart \<le> i \<and> i \<le> DynamicPortEnd \<and>
      \<lparr>protocol = Protocol p, port = i\<rparr> \<notin> used \<and> \<lparr>protocol = Protocol p, port = i\<rparr> \<notin> A \<and>
      (\<forall>j. DynamicPortStart \<le> j \<and> j < i \<longrightarrow>
         \<lparr>protocol = Protocol p, port = j\<rparr> \<in> used \<or> \<lparr>protocol = Protocol p, port = j\<rparr> \<in> A)"
  from first have "scanDynamicRange used A (Protocol p) DynamicPortStart = Some i"
    by (intro scanDynamicRange_first) simp_all
  then have turn: "allocateDynamic rangeOrder used D A (length pre) [p] =
      Inr ([p\<lparr>PublishedPort := i\<rparr>], insert \<lparr>protocol = Protocol p, port = i\<rparr> A)"
    by (simp add: assms(4,5))
  from reach have f: "allocateFixed used D {} (pre @ p # rest) = Inr A0"
    and before: "allocateDynamic rangeOrder used D A0 0 pre = Inr (pre', A)"
    by simp_all
  note after = Allocate_after_turn [OF assms(3,1,2) f before turn]
  show "allocateDynamic rangeOrder used D A0 0 (pre @ [p]) =
      Inr (pre' @ [p\<lparr>PublishedPort := i\<rparr>], insert \<lparr>protocol = Protocol p, port = i\<rparr> A)"
    by (rule after(1))
  show "fst (Allocate rangeOrder pa endpoint spec) =
      (case allocateDynamic rangeOrder used D
              (insert \<lparr>protocol = Protocol p, port = i\<rparr> A) (Suc (length pre)) rest of
         Inl e \<Rightarrow> Inl e
       | Inr (rest', A2) \<Rightarrow>
           Inr \<lparr>proposal_ports = Some (pre' @ p\<lparr>PublishedPort := i\<rparr> # rest'),
                allocate = A2, deallocate = D\<rparr>)"
    by (rule after(2))
  show "fst (Allocate rangeOrder pa endpoint spec) =
      Inr \<lparr>proposal_ports = Some (pre' @ p\<lparr>PublishedPort := i\<rparr> # rest),
           allocate = insert \<lparr>protocol = Protocol p, port = i\<rparr> A, deallocate = D\<rparr>"
    if "\<forall>r \<in> set rest. PublishedPort r \<noteq> 0 \<or> PublishMode r = PublishModeHost"
    using that by (rule after(3))
  show "Ports q ! length pre = p\<lparr>PublishedPort := i\<rparr>"
    and "\<lparr>protocol = Protocol p, port = i\<rparr> \<in> allocate q"
    if "fst (Allocate rangeOrder pa endpoint spec) = Inr q" for q
    using after(4) [OF that] by simp_all
next
  assume reach: "allocateFixed used D {} (pre @ p # rest) = Inr A0 \<and>
      allocateDynamic rangeOrder used D A0 0 pre = Inr (pre', A) \<and>
      set (rangeOrder (length pre) D) = D"
    and full: "\<forall>i. DynamicPortStart \<le> i \<and> i \<le> DynamicPortEnd \<longrightarrow>
      \<lparr>protocol = Protocol p, port = i\<rparr> \<in> used \<or> \<lparr>protocol = Protocol p, port = i\<rparr> \<in> A"
  from full have scan: "scanDynamicRange used A (Protocol p) DynamicPortStart = None"
    by (rule scanDynamicRange_exhausted)
  from reach have f: "allocateFixed used D {} (pre @ p # rest) = Inr A0"
    and before: "allocateDynamic rangeOrder used D A0 0 pre = Inr (pre', A)"
    and order: "set (rangeOrder (length pre) D) = D"
    by simp_all
  let ?call = "fst (Allocate rangeOrder pa endpoint spec)"
  let ?goal = "\<lambda>d. protocol d = Protocol p \<and> DynamicPortStart \<le> port d \<and>
      port d \<le> DynamicPortEnd \<and> d \<notin> A \<and>
      allocateDynamic rangeOrder used D A0 0 (pre @ [p]) =
        Inr (pre' @ [p\<lparr>PublishedPort := port d\<rparr>], insert d A) \<and>
      ?call =
        (case allocateDynamic rangeOrder used D (insert d A) (Suc (length pre)) rest of
           Inl e \<Rightarrow> Inl e
         | Inr (rest', A2) \<Rightarrow>
             Inr \<lparr>proposal_ports = Some (pre' @ p\<lparr>PublishedPort := port d\<rparr> # rest'),
                  allocate = A2, deallocate = D\<rparr>) \<and>
      ((\<forall>r \<in> set rest. PublishedPort r \<noteq> 0 \<or> PublishMode r = PublishModeHost) \<longrightarrow>
         ?call = Inr \<lparr>proposal_ports = Some (pre' @ p\<lparr>PublishedPort := port d\<rparr> # rest),
           allocate = insert d A, deallocate = D\<rparr>) \<and>
      (\<forall>q. ?call = Inr q \<longrightarrow>
         Ports q ! length pre = p\<lparr>PublishedPort := port d\<rparr> \<and> d \<in> allocate q)"
  have "if \<exists>d \<in> D. protocol d = Protocol p \<and> DynamicPortStart \<le> port d \<and>
         port d \<le> DynamicPortEnd \<and> d \<notin> A
    then \<exists>d \<in> D. ?goal d
    else ?call = Inl (ErrResourceExhausted (Protocol p))"
  proof (cases "reuseDeallocated (rangeOrder (length pre) D) A (Protocol p)")
    case None
    with order have no: "\<not> (\<exists>d \<in> D. protocol d = Protocol p \<and> DynamicPortStart \<le> port d \<and>
         port d \<le> DynamicPortEnd \<and> d \<notin> A)"
      by (simp add: reuseDeallocated_None)
    from before scan None
    have "allocateDynamic rangeOrder used D A0 0 ((pre @ [p]) @ rest) =
        Inl (ErrResourceExhausted (Protocol p))"
      by (simp only: allocateDynamic_append [of _ _ _ _ _ "pre @ [p]"])
        (simp add: allocateDynamic_append assms(4,5))
    with f assms(1-3) have "?call = Inl (ErrResourceExhausted (Protocol p))"
      by (simp add: Allocate_def)
    with no show ?thesis
      by auto
  next
    case (Some d)
    note d = reuseDeallocated_Some [OF Some]
    from scan Some d
    have turn: "allocateDynamic rangeOrder used D A (length pre) [p] =
        Inr ([p\<lparr>PublishedPort := port d\<rparr>], insert d A)"
      by (simp add: assms(4,5))
    note after = Allocate_after_turn [OF assms(3,1,2) f before turn]
    have "?goal d"
      using d after(1,2) after(3) after(4) by blast
    moreover from order d have "d \<in> D"
      by simp
    ultimately have "\<exists>d \<in> D. ?goal d"
      by blast
    moreover have "\<exists>d \<in> D. protocol d = Protocol p \<and> DynamicPortStart \<le> port d \<and>
         port d \<le> DynamicPortEnd \<and> d \<notin> A"
      using \<open>d \<in> D\<close> d by blast
    ultimately show ?thesis
      by simp
  qed
  then show "if \<exists>d \<in> D. protocol d = Protocol p \<and> DynamicPortStart \<le> port d \<and>
         port d \<le> DynamicPortEnd \<and> d \<notin> A
    then \<exists>d \<in> D. protocol d = Protocol p \<and> DynamicPortStart \<le> port d \<and>
           port d \<le> DynamicPortEnd \<and> d \<notin> A \<and>
           allocateDynamic rangeOrder used D A0 0 (pre @ [p]) =
             Inr (pre' @ [p\<lparr>PublishedPort := port d\<rparr>], insert d A) \<and>
           ?call =
             (case allocateDynamic rangeOrder used D (insert d A) (Suc (length pre)) rest of
                Inl e \<Rightarrow> Inl e
              | Inr (rest', A2) \<Rightarrow>
                  Inr \<lparr>proposal_ports = Some (pre' @ p\<lparr>PublishedPort := port d\<rparr> # rest'),
                       allocate = A2, deallocate = D\<rparr>) \<and>
           ((\<forall>r \<in> set rest. PublishedPort r \<noteq> 0 \<or> PublishMode r = PublishModeHost) \<longrightarrow>
              ?call = Inr \<lparr>proposal_ports = Some (pre' @ p\<lparr>PublishedPort := port d\<rparr> # rest),
                allocate = insert d A, deallocate = D\<rparr>) \<and>
           (\<forall>q. ?call = Inr q \<longrightarrow>
              Ports q ! length pre = p\<lparr>PublishedPort := port d\<rparr> \<and> d \<in> allocate q)
    else ?call = Inl (ErrResourceExhausted (Protocol p))"
    by simp
qed

text \<open>
  The theorem at three calls, each for a second port that asks for a dynamic port. On an
  allocator that holds tcp/30000, after \<open>web\<close> has got 30001, \<open>dns\<close> gets 30002. On an
  allocator that holds every tcp key of the range, an endpoint that holds tcp/30005 gets
  that port again for its new port \<open>dns\<close>, and a new endpoint gets
  \<open>ErrResourceExhausted\<close>.
\<close>

theorem allocateDynamic_port_witness:
  "fst (Allocate noKeys \<lparr>allocator_ports = {tcpKey 30000}\<rparr> newEndpoint
          (specOf [webDynamic, dnsFixed 0])) =
     Inr \<lparr>proposal_ports = Some [webFixed 30001, dnsFixed 30002],
          allocate = {tcpKey 30002, tcpKey 30001}, deallocate = {}\<rparr> \<and>
   fst (Allocate (visitOrder [tcpKey 30005]) \<lparr>allocator_ports = tcpDynamicRange\<rparr>
          \<lparr>Endpoint_Spec = specOf [webDynamic], Endpoint_Ports = [webFixed 30005]\<rparr>
          (specOf [webFixed 8080, dnsFixed 0])) =
     Inr \<lparr>proposal_ports = Some [webFixed 8080, dnsFixed 30005],
          allocate = {tcpKey 30005, tcpKey 8080}, deallocate = {tcpKey 30005}\<rparr> \<and>
   fst (Allocate noKeys \<lparr>allocator_ports = tcpDynamicRange\<rparr> newEndpoint
          (specOf [webFixed 8080, webDynamic])) = Inl (ErrResourceExhausted ProtocolTCP)"
proof -
  let ?e = "\<lparr>Endpoint_Spec = specOf [webDynamic], Endpoint_Ports = [webFixed 30005]\<rparr>"
  have dyn: "PublishedPort webDynamic = 0" "PublishMode webDynamic = PublishModeIngress"
    "PublishedPort (dnsFixed 0) = 0" "PublishMode (dnsFixed 0) = PublishModeIngress"
    "Protocol webDynamic = ProtocolTCP" "Protocol (dnsFixed 0) = ProtocolTCP"
    by (simp_all add: example_defs)
  have full: "DynamicPortStart \<le> i \<and> i \<le> DynamicPortEnd \<longrightarrow>
      \<lparr>protocol = ProtocolTCP, port = i\<rparr> \<in> tcpDynamicRange \<or>
      \<lparr>protocol = ProtocolTCP, port = i\<rparr> \<in> {tcpKey 8080}" for i
    by (simp add: tcpDynamicRange_def)
  have two: "\<lparr>protocol = ProtocolTCP, port = j\<rparr> \<in> {tcpKey 30000} \<or>
      \<lparr>protocol = ProtocolTCP, port = j\<rparr> \<in> {tcpKey 30001}"
    if "DynamicPortStart \<le> j \<and> j < 30002" for j
  proof -
    from that have "30000 \<le> unat j" "unat j < 30002"
      by (simp_all add: word_le_nat_alt word_less_nat_alt DynamicPortStart_def)
    then have "unat j = unat (30000 :: 32 word) \<or> unat j = unat (30001 :: 32 word)"
      by auto
    then have "j = 30000 \<or> j = 30001"
      by (simp only: word_unat_eq_iff)
    then show ?thesis
      by (auto simp: tcpKey_def)
  qed
  have r1: "recoverPorts newEndpoint (portsOfSpec (specOf [webDynamic, dnsFixed 0])) =
      Inr ([webDynamic] @ dnsFixed 0 # [])"
    and r3: "recoverPorts newEndpoint (portsOfSpec (specOf [webFixed 8080, webDynamic])) =
      Inr ([webFixed 8080] @ webDynamic # [])"
    by (simp_all add: portsOfSpec_def example_defs constant_defs)
  have r2: "recoverPorts ?e (portsOfSpec (specOf [webFixed 8080, dnsFixed 0])) =
      Inr ([webFixed 8080] @ dnsFixed 0 # [])"
    by (simp add: portsOfSpec_def portsEqual_def PortsMostlyEqual_def example_defs constant_defs)
  have d0: "{} = deallocatePorts (Endpoint_Ports newEndpoint) {}"
    and d2: "{tcpKey 30005} = deallocatePorts (Endpoint_Ports ?e) {}"
    by (simp_all add: portKey_def example_defs)
  have f1: "allocateFixed {tcpKey 30000} {} {} ([webDynamic] @ dnsFixed 0 # []) = Inr {}"
    by (simp add: example_defs)
  have f2: "allocateFixed tcpDynamicRange D {} ([webFixed 8080] @ p # []) = Inr {tcpKey 8080}"
    if "PublishedPort p = 0" for p D
    using that
    by (simp add: portKey_def tcpDynamicRange_def example_defs constant_defs)
  have b1: "allocateDynamic noKeys {tcpKey 30000} {} {} 0 [webDynamic] =
      Inr ([webFixed 30001], {tcpKey 30001})"
    by (simp add: example_defs constant_defs scan_first_ports)
  have b2: "allocateDynamic rangeOrder used D {tcpKey 8080} 0 [webFixed 8080] =
      Inr ([webFixed 8080], {tcpKey 8080})" for rangeOrder used D
    by (simp add: example_defs)
  have k: "tcpKey 30002 \<notin> {tcpKey 30000}" "tcpKey 30002 \<notin> {tcpKey 30001}"
    "DynamicPortStart \<le> 30002" "30002 \<le> DynamicPortEnd"
    "DynamicPortStart \<le> port (tcpKey 30005)" "port (tcpKey 30005) \<le> DynamicPortEnd"
    "protocol (tcpKey 30005) = ProtocolTCP" "tcpKey 30005 \<notin> {tcpKey 8080}"
    by (simp_all add: tcpKey_def constant_defs)
  have c1: "fst (Allocate noKeys \<lparr>allocator_ports = {tcpKey 30000}\<rparr> newEndpoint
          (specOf [webDynamic, dnsFixed 0])) =
     Inr \<lparr>proposal_ports = Some [webFixed 30001, dnsFixed 30002],
          allocate = {tcpKey 30002, tcpKey 30001}, deallocate = {}\<rparr>"
    using allocateDynamic_port [OF _ d0 r1 dyn(3,4), of "{tcpKey 30000}"
        "\<lparr>allocator_ports = {tcpKey 30000}\<rparr>" "{}" noKeys "[webFixed 30001]"
        "{tcpKey 30001}"] f1 b1 k two dyn
    by (simp add: noKeys_def tcpKey_def dnsFixed_def)
  have c2: "fst (Allocate (visitOrder [tcpKey 30005]) \<lparr>allocator_ports = tcpDynamicRange\<rparr> ?e
          (specOf [webFixed 8080, dnsFixed 0])) =
     Inr \<lparr>proposal_ports = Some [webFixed 8080, dnsFixed 30005],
          allocate = {tcpKey 30005, tcpKey 8080}, deallocate = {tcpKey 30005}\<rparr>"
    using allocateDynamic_port [OF _ d2 r2 dyn(3,4), of tcpDynamicRange
        "\<lparr>allocator_ports = tcpDynamicRange\<rparr>" "{tcpKey 8080}"
        "visitOrder [tcpKey 30005]" "[webFixed 8080]" "{tcpKey 8080}"]
      f2 [OF dyn(3)] b2 k full dyn
    by (simp add: visitOrder_def tcpKey_def dnsFixed_def)
  have c3: "fst (Allocate noKeys \<lparr>allocator_ports = tcpDynamicRange\<rparr> newEndpoint
      (specOf [webFixed 8080, webDynamic])) = Inl (ErrResourceExhausted ProtocolTCP)"
    using allocateDynamic_port [OF _ d0 r3 dyn(1,2), of tcpDynamicRange
        "\<lparr>allocator_ports = tcpDynamicRange\<rparr>" "{tcpKey 8080}" noKeys "[webFixed 8080]"
        "{tcpKey 8080}"] f2 [OF dyn(1)] b2 full dyn
    by (simp add: noKeys_def)
  from c1 c2 c3 show ?thesis
    by simp
qed

subsection \<open>Committing a proposal of Allocate\<close>

text \<open>
  The keys that the second allocation loop adds are free in the allocator or released by
  the call, when the fallback loop visits keys of the map \<open>deallocate\<close> only.
\<close>

lemma allocateDynamic_free:
  "allocateDynamic rangeOrder used D A k ps = Inr (ps', A') \<Longrightarrow>
   \<forall>k. set (rangeOrder k D) \<subseteq> D \<Longrightarrow> x \<in> A' \<Longrightarrow> x \<in> A \<or> x \<notin> used \<or> x \<in> D"
proof (induction ps arbitrary: A k ps')
  case Nil
  then show ?case by simp
next
  case (Cons p ps)
  show ?case
  proof (cases "PublishedPort p \<noteq> 0 \<or> PublishMode p = PublishModeHost")
    case True
    with Cons.prems(1) obtain qs where
      "allocateDynamic rangeOrder used D A (Suc k) ps = Inr (qs, A')"
      by (auto split: sum.splits prod.splits)
    from Cons.IH [OF this Cons.prems(2,3)] show ?thesis .
  next
    case False
    then have dyn: "PublishedPort p = 0" "PublishMode p \<noteq> PublishModeHost"
      by simp_all
    show ?thesis
    proof (cases "scanDynamicRange used A (Protocol p) DynamicPortStart")
      case (Some n)
      with Cons.prems(1) dyn obtain qs where rest:
        "allocateDynamic rangeOrder used D (insert \<lparr>protocol = Protocol p, port = n\<rparr> A)
          (Suc k) ps = Inr (qs, A')"
        by (auto split: sum.splits prod.splits)
      from Cons.IH [OF rest Cons.prems(2,3)] scanDynamicRange_Some [OF Some] show ?thesis
        by auto
    next
      case None
      with Cons.prems(1) dyn obtain d qs where
        d: "reuseDeallocated (rangeOrder k D) A (Protocol p) = Some d" and
        rest: "allocateDynamic rangeOrder used D
          (insert \<lparr>protocol = Protocol p, port = port d\<rparr> A) (Suc k) ps = Inr (qs, A')"
        by (auto split: sum.splits prod.splits option.splits)
      from reuseDeallocated_Some [OF d] Cons.prems(2)
      have "\<lparr>protocol = Protocol p, port = port d\<rparr> \<in> D"
        by auto
      with Cons.IH [OF rest Cons.prems(2,3)] show ?thesis
        by auto
    qed
  qed
qed

text \<open>
  A proposal that \<open>Allocate\<close> returns reserves no key that the allocator holds, but for the
  keys it releases. So when the allocator holds the keys of the endpoint's realized ports,
  the proposal is a no-op exactly when committing it leaves the reserved keys unchanged.
\<close>

lemma Allocate_reserves_free:
  assumes "fst (Allocate rangeOrder pa endpoint spec) = Inr q"
    and "\<forall>k. set (rangeOrder k (deallocatePorts (Endpoint_Ports endpoint) {}))
           \<subseteq> deallocatePorts (Endpoint_Ports endpoint) {}"
  shows "deallocate q = deallocatePorts (Endpoint_Ports endpoint) {}"
    and "allocate q \<inter> (allocator_ports pa - deallocate q) = {}"
proof -
  let ?used = "allocator_ports pa" and ?D = "deallocatePorts (Endpoint_Ports endpoint) {}"
  from assms(1) obtain finals A0 ports where
    f: "allocateFixed ?used ?D {} finals = Inr A0" and
    d: "allocateDynamic rangeOrder ?used ?D A0 0 finals = Inr (ports, allocate q)" and
    D: "deallocate q = ?D"
    by (auto simp: Allocate_def Let_def split: sum.splits prod.splits)
  show "deallocate q = ?D"
    by (rule D)
  have "x \<notin> ?used \<or> x \<in> ?D" if "x \<in> allocate q" for x
    using allocateDynamic_free [OF d assms(2) that] allocateFixed_Inr [OF f] by auto
  with D show "allocate q \<inter> (?used - deallocate q) = {}"
    by auto
qed

lemma Allocate_IsNoop_unchanged:
  assumes "fst (Allocate rangeOrder pa endpoint spec) = Inr q"
    and "\<forall>k. set (rangeOrder k (deallocatePorts (Endpoint_Ports endpoint) {}))
           \<subseteq> deallocatePorts (Endpoint_Ports endpoint) {}"
    and "deallocatePorts (Endpoint_Ports endpoint) {} \<subseteq> allocator_ports pa"
  shows "IsNoop q \<longleftrightarrow> allocator_ports (Commit q pa) = allocator_ports pa"
  using Allocate_reserves_free [OF assms(1,2)] assms(3)
  by (intro IsNoop_iff_unchanged) simp_all

subsection \<open>Allocating again with the same spec\<close>

text \<open>
  The second call. The endpoint stores the spec and holds, for each port of the spec, that
  port with a published port: the spec's own where the spec fixes it or the mode is host,
  and some port other than 0 where the spec asks for a dynamic one. The keys of the
  realized ports are distinct, and no port of the spec that asks for a dynamic port is
  mostly equal to another port of the spec. Then \<open>Allocate\<close> with the same spec returns
  the realized ports, and releases and reserves their keys.
\<close>

lemma Allocate_again:
  assumes len: "length realized = length specs"
    and shape: "\<forall>i < length specs. \<exists>n. realized ! i = (specs ! i)\<lparr>PublishedPort := n\<rparr> \<and>
      (PublishMode (specs ! i) = PublishModeHost \<or> PublishedPort (specs ! i) \<noteq> 0 \<longrightarrow>
         n = PublishedPort (specs ! i)) \<and>
      (PublishMode (specs ! i) = PublishModeIngress \<longrightarrow> n \<noteq> 0)"
    and range: "\<forall>s \<in> set specs.
      \<not> (masterPortEnd < PublishedPort s \<or> masterPortEnd < TargetPort s)"
    and unique: "\<forall>i j. i < length specs \<and> j < length specs \<and>
      PublishedPort (specs ! i) = 0 \<and> PublishMode (specs ! i) = PublishModeIngress \<and>
      PortsMostlyEqual (Some (specs ! i)) (Some (specs ! j)) \<longrightarrow> i = j"
    and dist: "distinct (fixedKeys realized)"
  shows "fst (Allocate rangeOrder pa
      \<lparr>Endpoint_Spec = Some \<lparr>EndpointSpec_Ports = specs\<rparr>, Endpoint_Ports = realized\<rparr>
      (Some \<lparr>EndpointSpec_Ports = specs\<rparr>)) =
    Inr \<lparr>proposal_ports = Some realized, allocate = set (fixedKeys realized),
         deallocate = set (fixedKeys realized)\<rparr>"
proof -
  let ?e = "\<lparr>Endpoint_Spec = Some \<lparr>EndpointSpec_Ports = specs\<rparr>, Endpoint_Ports = realized\<rparr>"
  from range obtain finals where finals: "recoverPorts ?e specs = Inr finals"
    using recoverPorts_in_range [of specs ?e] by blast
  have flen: "length finals = length specs"
    by (rule recoverPorts_length [OF finals])
  have me: "PortsMostlyEqual (Some s) (Some (realized ! j)) \<longleftrightarrow>
      PortsMostlyEqual (Some s) (Some (specs ! j))" if "j < length specs" for s j
  proof -
    from shape that obtain n where "realized ! j = (specs ! j)\<lparr>PublishedPort := n\<rparr>"
      by blast
    then show ?thesis
      by (simp add: PortsMostlyEqual_def)
  qed
  have nth: "finals ! i = realized ! i" if i: "i < length specs" for i
  proof (cases "PublishMode (specs ! i) = PublishModeHost \<or> PublishedPort (specs ! i) \<noteq> 0")
    case True
    from shape i True obtain n where "realized ! i = (specs ! i)\<lparr>PublishedPort := n\<rparr>"
      and "n = PublishedPort (specs ! i)"
      by blast
    then have "realized ! i = specs ! i"
      by simp
    with recoverPorts_nth_fixed [OF finals i True] show ?thesis
      by simp
  next
    case False
    then have dyn: "PublishMode (specs ! i) = PublishModeIngress" "PublishedPort (specs ! i) = 0"
      by (simp_all add: not_host_iff)
    let ?P = "\<lambda>p. PortsMostlyEqual (Some (specs ! i)) (Some p)"
    have self: "?P (realized ! i)"
      using me [OF i, of "specs ! i"] by (simp add: PortsMostlyEqual_def)
    then have ex: "\<exists>p \<in> set realized. ?P p"
      using i len by (metis nth_mem)
    then have "filter ?P realized \<noteq> []"
      by (simp add: filter_empty_conv)
    then have "last (filter ?P realized) \<in> set (filter ?P realized)"
      by (rule last_in_set)
    then obtain j where j: "j < length realized" "last (filter ?P realized) = realized ! j"
      "?P (realized ! j)"
      by (auto simp: in_set_conv_nth)
    with me [of j "specs ! i"] len have "?P (specs ! j)"
      by simp
    with unique i j(1) len dyn have "i = j"
      by simp
    with j have last: "last (filter ?P realized) = realized ! i"
      by simp
    from shape i obtain n where n: "realized ! i = (specs ! i)\<lparr>PublishedPort := n\<rparr>"
      by blast
    have old: "\<exists>old \<in> set specs. portsEqual old (specs ! i)"
      using i by (auto simp: portsEqual_iff)
    from recoverPorts_nth_dynamic [OF finals i dyn]
    have "finals ! i = takeAssigned (specs ! i) realized (specs ! i)"
      using old by (simp add: recoverFromOld_eq)
    also have "\<dots> = (specs ! i)\<lparr>PublishedPort := PublishedPort (realized ! i)\<rparr>"
      using ex last by (simp add: takeAssigned_eq)
    also have "\<dots> = realized ! i"
      using n by simp
    finally show ?thesis .
  qed
  have eq: "finals = realized"
    using flen len nth by (simp add: list_eq_iff_nth_eq)
  have nonzero: "PublishedPort p \<noteq> 0 \<or> PublishMode p = PublishModeHost" if "p \<in> set realized" for p
  proof -
    from that len obtain i where i: "i < length specs" "p = realized ! i"
      by (auto simp: in_set_conv_nth)
    with shape obtain n where n: "p = (specs ! i)\<lparr>PublishedPort := n\<rparr>"
      "PublishMode (specs ! i) = PublishModeIngress \<longrightarrow> n \<noteq> 0"
      by blast
    then show ?thesis
      by (cases "PublishMode (specs ! i)") simp_all
  qed
  have D: "deallocatePorts realized {} = set (fixedKeys realized)"
    using nonzero by (auto simp: deallocatePorts_eq fixedKeys_def)
  have fixed: "allocateFixed (allocator_ports pa) (set (fixedKeys realized)) {} realized =
      Inr (set (fixedKeys realized))"
    using allocateFixed_no_conflict [of realized "allocator_ports pa" "set (fixedKeys realized)" "{}"]
      dist by simp
  have dynamic: "allocateDynamic rangeOrder (allocator_ports pa) (set (fixedKeys realized))
      (set (fixedKeys realized)) 0 realized = Inr (realized, set (fixedKeys realized))"
    using nonzero by (simp add: allocateDynamic_none)
  show ?thesis
    using finals eq D fixed dynamic by (simp add: Allocate_def portsOfSpec_def Let_def)
qed

text \<open>
  Two calls in a row. If no port of the spec that asks for a dynamic port is mostly equal
  to another port of the spec, then after a call of \<open>Allocate\<close> that returned a proposal, a
  second call for the endpoint that stores the spec and holds the proposal's ports, with
  the same spec, on any state of the allocator, returns the same ports; it releases and
  reserves the same keys.
\<close>

lemma Allocate_twice:
  assumes "fst (Allocate rangeOrder pa endpoint (Some \<lparr>EndpointSpec_Ports = specs\<rparr>)) = Inr q"
    and "\<forall>i j. i < length specs \<and> j < length specs \<and>
      PublishedPort (specs ! i) = 0 \<and> PublishMode (specs ! i) = PublishModeIngress \<and>
      PortsMostlyEqual (Some (specs ! i)) (Some (specs ! j)) \<longrightarrow> i = j"
  shows "fst (Allocate rangeOrder' pa'
      \<lparr>Endpoint_Spec = Some \<lparr>EndpointSpec_Ports = specs\<rparr>, Endpoint_Ports = Ports q\<rparr>
      (Some \<lparr>EndpointSpec_Ports = specs\<rparr>)) =
    Inr \<lparr>proposal_ports = Some (Ports q), allocate = allocate q, deallocate = allocate q\<rparr>"
proof -
  have specs: "portsOfSpec (Some \<lparr>EndpointSpec_Ports = specs\<rparr>) = specs"
    by (simp add: portsOfSpec_def)
  note r = Allocate_result [OF assms(1), unfolded specs]
  from Allocate_again [OF r(1) r(2) r(5) assms(2) r(3), of rangeOrder' pa'] r(4)
  show ?thesis
    by simp
qed

text \<open>
  C9 fails on the code. The spec asks twice for a dynamic port for \<open>web\<close>. On an empty
  allocator and a new endpoint, \<open>Allocate\<close> assigns tcp/30000 and tcp/30001, and the
  proposal is committed. The endpoint now holds these ports and the spec; \<open>Allocate\<close> with
  the same spec copies the port of the last mostly equal realized port, 30001, into both
  result ports, and its first allocation loop rejects the second one.
\<close>

theorem Allocate_twice_duplicate:
  "fst (Allocate rangeOrder \<lparr>allocator_ports = {}\<rparr> newEndpoint
          (specOf [webDynamic, webDynamic])) =
     Inr \<lparr>proposal_ports = Some [webFixed 30000, webFixed 30001],
          allocate = {tcpKey 30000, tcpKey 30001}, deallocate = {}\<rparr> \<and>
   Commit \<lparr>proposal_ports = Some [webFixed 30000, webFixed 30001],
          allocate = {tcpKey 30000, tcpKey 30001}, deallocate = {}\<rparr> \<lparr>allocator_ports = {}\<rparr> =
     \<lparr>allocator_ports = {tcpKey 30000, tcpKey 30001}\<rparr> \<and>
   fst (Allocate rangeOrder' \<lparr>allocator_ports = {tcpKey 30000, tcpKey 30001}\<rparr>
          \<lparr>Endpoint_Spec = specOf [webDynamic, webDynamic],
           Endpoint_Ports = [webFixed 30000, webFixed 30001]\<rparr>
          (specOf [webDynamic, webDynamic])) =
     Inl (ErrInvalidSpec (PublishedPortAssignedTwice (tcpKey 30001)))"
proof (intro conjI)
  show "fst (Allocate rangeOrder \<lparr>allocator_ports = {}\<rparr> newEndpoint
          (specOf [webDynamic, webDynamic])) =
     Inr \<lparr>proposal_ports = Some [webFixed 30000, webFixed 30001],
          allocate = {tcpKey 30000, tcpKey 30001}, deallocate = {}\<rparr>"
    by (auto simp add: Allocate_def portsOfSpec_def example_defs constant_defs scan_first_ports)
  show "Commit \<lparr>proposal_ports = Some [webFixed 30000, webFixed 30001],
          allocate = {tcpKey 30000, tcpKey 30001}, deallocate = {}\<rparr> \<lparr>allocator_ports = {}\<rparr> =
     \<lparr>allocator_ports = {tcpKey 30000, tcpKey 30001}\<rparr>"
    by (simp add: Commit_def IsNoop_def example_defs)
  show "fst (Allocate rangeOrder' \<lparr>allocator_ports = {tcpKey 30000, tcpKey 30001}\<rparr>
          \<lparr>Endpoint_Spec = specOf [webDynamic, webDynamic],
           Endpoint_Ports = [webFixed 30000, webFixed 30001]\<rparr>
          (specOf [webDynamic, webDynamic])) =
     Inl (ErrInvalidSpec (PublishedPortAssignedTwice (tcpKey 30001)))"
    by (simp add: Allocate_def portsOfSpec_def example_defs constant_defs portsEqual_def
        PortsMostlyEqual_def portKey_def)
qed

end
